theory Spec2Isabelle
  imports Complex_Main "HOL-Library.Word"
begin

section \<open>Python values\<close>

text \<open>
  A Python \<open>str\<close> is a sequence of Unicode code points, a \<open>bytes\<close> object a sequence of
  octets. The literal on line 31 of the source holds the code points U+00E2, U+2013 and
  U+00AA, so code points are natural numbers and not 8-bit characters.
\<close>

type_synonym pystr = "nat list"
type_synonym bytes = "8 word list"

definition py :: "string \<Rightarrow> pystr" where
  "py s = map of_char s"

text \<open>The exceptions that the modelled functions raise or let through.\<close>

datatype error =
    Exception pystr
  | FileNotFoundError pystr
  | OSError
  | UnicodeError
  | KeyError pystr
  | AttributeError pystr
  | ParseError
  | EOFError
  | ValueError

text \<open>The effects on the outside world that the claims speak about.\<close>

datatype event =
    Popen "pystr list"
  | Communicate bytes
  | Run "pystr list"
  | Print pystr

text \<open>
  \<open>str.isspace\<close> of one code point, the set that \<open>str.strip()\<close> without argument removes
  from both ends.
\<close>

definition isspace :: "nat \<Rightarrow> bool" where
  "isspace c \<longleftrightarrow>
     (9 \<le> c \<and> c \<le> 13) \<or> (28 \<le> c \<and> c \<le> 32) \<or> c = 133 \<or> c = 160 \<or> c = 5760 \<or>
     (8192 \<le> c \<and> c \<le> 8202) \<or> c = 8232 \<or> c = 8233 \<or> c = 8239 \<or> c = 8287 \<or> c = 12288"

definition strip :: "pystr \<Rightarrow> pystr" where
  "strip s = rev (dropWhile isspace (rev (dropWhile isspace s)))"

section \<open>ascii_to_braille\<close>

text \<open>
  The child process and the codec are outside the repository. \<open>spawns\<close> says whether
  \<open>subprocess.Popen\<close> can start \<open>lou_translate\<close>, \<open>communicate\<close> is what the process
  answers to its standard input, \<open>encode\<close> and \<open>decode\<close> are \<open>str.encode()\<close> and
  \<open>bytes.decode()\<close>, which raise on data that is not UTF-8.
\<close>

record completed =
  returncode :: int
  stdout :: bytes
  stderr :: bytes

record lou_env =
  spawns :: bool
  encode :: "pystr \<Rightarrow> bytes option"
  decode :: "bytes \<Rightarrow> pystr option"
  communicate :: "bytes \<Rightarrow> completed"

definition non_translatable_chars :: "pystr list" where
  "non_translatable_chars =
     [[0xE2, 0x2013, 0xAA], py '' '', py ''A.'', py ''B.'', py ''C.'', py ''D.'', py ''E.'']"

definition lou_translate_cmd :: "pystr list" where
  "lou_translate_cmd = [py ''lou_translate'', py ''en-ueb-g2.ctb'']"

definition ascii_to_braille :: "lou_env \<Rightarrow> pystr \<Rightarrow> (error + pystr) \<times> event list" where
  "ascii_to_braille env text =
     (if strip text \<noteq> [] \<and> strip text \<in> set non_translatable_chars then (Inr text, [])
      else if \<not> spawns env then (Inl OSError, [Popen lou_translate_cmd])
      else case encode env text of
        None \<Rightarrow> (Inl UnicodeError, [Popen lou_translate_cmd])
      | Some inp \<Rightarrow>
          (let process = communicate env inp;
               log = [Popen lou_translate_cmd, Communicate inp]
           in if returncode process \<noteq> 0
              then (case decode env (stderr process) of
                      None \<Rightarrow> (Inl UnicodeError, log)
                    | Some msg \<Rightarrow> (Inl (Exception (py ''lou_translate failed: '' @ msg)), log))
              else (case decode env (stdout process) of
                      None \<Rightarrow> (Inl UnicodeError, log)
                    | Some out \<Rightarrow> (Inr out, log))))"

text \<open>A translator for the examples: it echoes its input and exits with the given status.\<close>

definition echo_env :: "int \<Rightarrow> lou_env" where
  "echo_env rc =
     \<lparr>spawns = True,
      encode = (\<lambda>s. Some (map of_nat s)),
      decode = (\<lambda>b. Some (map unat b)),
      communicate = (\<lambda>inp. \<lparr>returncode = rc, stdout = inp, stderr = [0x62, 0x61, 0x64]\<rparr>)\<rparr>"

text \<open>
  A translator whose exit status and two streams are given. Its codec decodes octets below
  0x80 as UTF-8 does and refuses any other octet; the examples use ASCII text and the
  octet 0xFF, which occurs in no UTF-8 text.
\<close>

definition fixed_env :: "int \<Rightarrow> bytes \<Rightarrow> bytes \<Rightarrow> lou_env" where
  "fixed_env rc out err =
     \<lparr>spawns = True,
      encode = (\<lambda>s. if list_all (\<lambda>c. c < 128) s then Some (map of_nat s) else None),
      decode = (\<lambda>b. if list_all (\<lambda>x. x < 0x80) b then Some (map unat b) else None),
      communicate = (\<lambda>inp. \<lparr>returncode = rc, stdout = out, stderr = err\<rparr>)\<rparr>"

section \<open>Path and string operations of the standard library\<close>

text \<open>
  \<open>os.path.join\<close> of two components on POSIX: an absolute second component replaces the
  first, otherwise one separator stands between them.
\<close>

definition path_join :: "pystr \<Rightarrow> pystr \<Rightarrow> pystr" where
  "path_join a b =
     (if b \<noteq> [] \<and> hd b = 47 then b
      else if a = [] \<or> last a = 47 then a @ b
      else a @ [47] @ b)"

text \<open>\<open>s.lstrip('/')\<close>, \<open>needle in s\<close> and \<open>s.endswith(suffix)\<close>.\<close>

definition lstrip_slash :: "pystr \<Rightarrow> pystr" where
  "lstrip_slash s = dropWhile (\<lambda>c. c = 47) s"

fun contains :: "pystr \<Rightarrow> pystr \<Rightarrow> bool" where
  "contains needle [] = (needle = [])"
| "contains needle (c # cs) =
     (take (length needle) (c # cs) = needle \<or> contains needle cs)"

definition endswith :: "pystr \<Rightarrow> pystr \<Rightarrow> bool" where
  "endswith s suffix = (drop (length s - length suffix) s = suffix)"

text \<open>
  \<open>s.replace(old, new)\<close>: the occurrences of \<open>old\<close> are found from the left and do not
  overlap; an empty \<open>old\<close> matches before every code point and at the end.
\<close>

function replace :: "pystr \<Rightarrow> pystr \<Rightarrow> pystr \<Rightarrow> pystr" where
  "replace [] new s = new @ concat (map (\<lambda>c. c # new) s)"
| "replace (v # va) new [] = []"
| "replace (v # va) new (c # cs) =
     (if take (length (v # va)) (c # cs) = v # va
      then new @ replace (v # va) new (drop (length (v # va)) (c # cs))
      else c # replace (v # va) new cs)"
  by pat_completeness auto
termination
  by (relation "measure (\<lambda>(old, new, s). length s)") auto

section \<open>convert_pptx_to_pdf\<close>

text \<open>
  The operating system as the function sees it. \<open>subprocess_run\<close> is the call of line 387:
  it returns the exit status of the converter, or raises an \<open>Exception\<close> (the program is
  not installed, say), of which \<open>Inl\<close> keeps the text that \<open>str\<close> gives. Without
  \<open>check=True\<close> an exit status other than zero is a return and not an exception.
\<close>

record os_env =
  os_path_exists :: "pystr \<Rightarrow> bool"
  os_path_splitext :: "pystr \<Rightarrow> pystr \<times> pystr"
  os_path_dirname :: "pystr \<Rightarrow> pystr"
  subprocess_run :: "pystr list \<Rightarrow> pystr + int"

definition output_pdf :: "os_env \<Rightarrow> pystr \<Rightarrow> pystr" where
  "output_pdf env pptx_file = fst (os_path_splitext env pptx_file) @ py ''.pdf''"

definition libreoffice_cmd :: "os_env \<Rightarrow> pystr \<Rightarrow> pystr list" where
  "libreoffice_cmd env pptx_file =
     [py ''libreoffice'', py ''--headless'', py ''--convert-to'', py ''pdf'', pptx_file,
      py ''--outdir'', os_path_dirname env (output_pdf env pptx_file)]"

definition convert_pptx_to_pdf :: "os_env \<Rightarrow> pystr \<Rightarrow> (error + unit) \<times> event list" where
  "convert_pptx_to_pdf env pptx_file =
     (if \<not> os_path_exists env pptx_file
      then (Inl (FileNotFoundError
                  (py ''The specified PPTX file does not exist: '' @ pptx_file)), [])
      else case subprocess_run env (libreoffice_cmd env pptx_file) of
        Inr rc \<Rightarrow>
          (Inr (), [Run (libreoffice_cmd env pptx_file),
                    Print (py ''File converted successfully. Saved as ''
                           @ output_pdf env pptx_file @ py ''.'')])
      | Inl error \<Rightarrow>
          (Inr (), [Run (libreoffice_cmd env pptx_file),
                    Print (py ''An error occurred during file conversion: '' @ error)]))"

text \<open>An operating system for the examples, in which the converter is not installed.\<close>

definition no_libreoffice :: os_env where
  "no_libreoffice =
     \<lparr>os_path_exists = (\<lambda>p. p = py ''a.pptx''),
      os_path_splitext = (\<lambda>p. (take (length p - 5) p, drop (length p - 5) p)),
      os_path_dirname = (\<lambda>p. []),
      subprocess_run = (\<lambda>cmd. Inl (py ''No such file or directory''))\<rparr>"

section \<open>hash_file and remove_repetitive_images\<close>

text \<open>
  \<open>hashlib.sha1\<close> is a parameter: a state, \<open>update\<close> and \<open>hexdigest\<close>. \<open>hash_file\<close> feeds
  it the content of the file in pieces of \<open>BUF_SIZE\<close> octets until a read returns nothing.
\<close>

record 'st sha1_impl =
  sha1_new :: 'st
  sha1_update :: "'st \<Rightarrow> bytes \<Rightarrow> 'st"
  hexdigest :: "'st \<Rightarrow> pystr"

definition BUF_SIZE :: nat where
  "BUF_SIZE = 65536"

function hash_loop :: "'st sha1_impl \<Rightarrow> 'st \<Rightarrow> bytes \<Rightarrow> 'st" where
  "hash_loop h sha1 rest =
     (let data = take BUF_SIZE rest
      in if data = [] then sha1
         else hash_loop h (sha1_update h sha1 data) (drop BUF_SIZE rest))"
  by pat_completeness auto
termination
  by (relation "measure (\<lambda>(h, sha1, rest). length rest)") (auto simp: BUF_SIZE_def)

declare hash_loop.simps [simp del]

definition hash_file :: "'st sha1_impl \<Rightarrow> bytes \<Rightarrow> pystr" where
  "hash_file h data = hexdigest h (hash_loop h (sha1_new h) data)"

text \<open>An entry of \<open>os.listdir(image_dir)\<close>: its name, \<open>os.path.isfile\<close>, and its content.\<close>

record dir_entry =
  filename :: pystr
  isfile :: bool
  content :: bytes

text \<open>
  A \<open>defaultdict\<close> keeps its keys in the order of their first insertion, the order in which
  \<open>items()\<close> yields them: an association list. \<open>dd_update d f k\<close> is \<open>m[k] = f(m[k])\<close>
  with default \<open>d\<close>, \<open>dd_get d k\<close> is \<open>m[k]\<close>.
\<close>

fun dd_update :: "'v \<Rightarrow> ('v \<Rightarrow> 'v) \<Rightarrow> 'k \<Rightarrow> ('k \<times> 'v) list \<Rightarrow> ('k \<times> 'v) list" where
  "dd_update d f k [] = [(k, f d)]"
| "dd_update d f k ((k', v) # kvs) =
     (if k = k' then (k', f v) # kvs else (k', v) # dd_update d f k kvs)"

definition dd_get :: "'v \<Rightarrow> 'k \<Rightarrow> ('k \<times> 'v) list \<Rightarrow> 'v" where
  "dd_get d k kvs = (case map_of kvs k of None \<Rightarrow> d | Some v \<Rightarrow> v)"

text \<open>The files of the listing that share the digest \<open>k\<close>: its content-hash group.\<close>

definition hash_group :: "'st sha1_impl \<Rightarrow> dir_entry list \<Rightarrow> pystr \<Rightarrow> dir_entry list" where
  "hash_group h listing k = filter (\<lambda>e. isfile e \<and> hash_file h (content e) = k) listing"

text \<open>The loop of lines 180 to 185 over the directory listing.\<close>

fun scan_dir :: "'st sha1_impl \<Rightarrow> pystr \<Rightarrow> dir_entry list
    \<Rightarrow> (pystr \<times> nat) list \<times> (pystr \<times> pystr list) list
    \<Rightarrow> (pystr \<times> nat) list \<times> (pystr \<times> pystr list) list" where
  "scan_dir h image_dir [] (hash_counts, file_hashes) = (hash_counts, file_hashes)"
| "scan_dir h image_dir (e # es) (hash_counts, file_hashes) =
     (let file_path = path_join image_dir (filename e)
      in if isfile e
         then (let file_hash = hash_file h (content e)
               in scan_dir h image_dir es
                    (dd_update 0 Suc file_hash hash_counts,
                     dd_update [] (\<lambda>files. files @ [file_path]) file_hash file_hashes))
         else scan_dir h image_dir es (hash_counts, file_hashes))"

text \<open>
  The threshold of line 188 is the product of the double nearest to 0.8 and the slide
  count. A count of files is an integer, and for slide counts below \<open>2^50\<close> the
  comparison of line 190 gives the same answer with that double as with the exact
  rational \<open>8/10 * num_slides\<close>, which is what the model compares with.
\<close>

definition threshold :: "nat \<Rightarrow> rat" where
  "threshold num_slides = (8 / 10) * of_nat num_slides"

text \<open>
  The function returns the paths it hands to \<open>os.remove\<close>, in that order. \<open>num_slides\<close> is
  \<open>len(prs.slides)\<close> of the presentation that line 174 loads.
\<close>

definition remove_repetitive_images ::
    "'st sha1_impl \<Rightarrow> nat \<Rightarrow> pystr \<Rightarrow> dir_entry list \<Rightarrow> pystr list" where
  "remove_repetitive_images h num_slides image_dir listing =
     (let (hash_counts, file_hashes) = scan_dir h image_dir listing ([], [])
      in concat (map (\<lambda>(file_hash, files).
                        if of_nat (dd_get 0 file_hash hash_counts) > threshold num_slides
                        then files else [])
                     file_hashes))"

text \<open>
  A digest for the examples: the content itself, written as code points. Like SHA-1 on
  the files of the examples, it tells different contents apart.
\<close>

definition plain_digest :: "bytes sha1_impl" where
  "plain_digest = \<lparr>sha1_new = [], sha1_update = (\<lambda>st data. st @ data), hexdigest = map unat\<rparr>"

definition image_file :: "string \<Rightarrow> bytes \<Rightarrow> dir_entry" where
  "image_file name data = \<lparr>filename = py name, isfile = True, content = data\<rparr>"

definition media_dir :: pystr where
  "media_dir = py ''temp_pptx/ppt/media''"

text \<open>Nine copies of one picture, two of another, and a sub-directory.\<close>

definition ten_slide_media :: "dir_entry list" where
  "ten_slide_media =
     [image_file ''image1.png'' [1], image_file ''image2.png'' [2],
      image_file ''image3.png'' [1], image_file ''image4.png'' [1],
      image_file ''image5.png'' [1], image_file ''image6.png'' [2],
      image_file ''image7.png'' [1], image_file ''image8.png'' [1],
      \<lparr>filename = py ''sub'', isfile = False, content = []\<rparr>,
      image_file ''image9.png'' [1], image_file ''image10.png'' [1],
      image_file ''image11.png'' [1]]"

section \<open>The repair loop of clean_pptx\<close>

subsection \<open>Documents\<close>

text \<open>
  An element of \<open>xml.etree.ElementTree\<close>: its tag in the form \<open>{namespace}local\<close>, its
  attribute dictionary and its children in document order. Text between the elements plays
  no part in the loop and is left out.
\<close>

datatype xml = Element (tag: pystr) (attrib: "(pystr \<times> pystr) list") (children: "xml list")

definition qname :: "string \<Rightarrow> string \<Rightarrow> pystr" where
  "qname namespace local = py ''{'' @ py namespace @ py ''}'' @ py local"

definition Relationship_tag :: pystr where
  "Relationship_tag =
     qname ''http://schemas.openxmlformats.org/package/2006/relationships'' ''Relationship''"

definition pic_tag :: pystr where
  "pic_tag = qname ''http://schemas.openxmlformats.org/presentationml/2006/main'' ''pic''"

definition blip_tag :: pystr where
  "blip_tag = qname ''http://schemas.openxmlformats.org/drawingml/2006/main'' ''blip''"

definition embed_attr :: pystr where
  "embed_attr =
     qname ''http://schemas.openxmlformats.org/officeDocument/2006/relationships'' ''embed''"

text \<open>
  The descendants of an element in document order, the element itself excluded: what
  \<open>findall('.//tag')\<close> filters and of which \<open>find('.//tag')\<close> takes the first match.
\<close>

fun descendants :: "xml \<Rightarrow> xml list" where
  "descendants (Element t a cs) = concat (map (\<lambda>c. c # descendants c) cs)"

definition findall_descendants :: "pystr \<Rightarrow> xml \<Rightarrow> xml list" where
  "findall_descendants t root_elem = filter (\<lambda>e. tag e = t) (descendants root_elem)"

definition find_descendant :: "pystr \<Rightarrow> xml \<Rightarrow> xml option" where
  "find_descendant t root_elem =
     (case findall_descendants t root_elem of [] \<Rightarrow> None | e # _ \<Rightarrow> Some e)"

subsection \<open>The working directory\<close>

text \<open>
  What the loop sees of \<open>temp_pptx\<close> when it starts, after the archive was extracted and
  the media directory pruned: \<open>os.path.exists\<close>; the listing of \<open>ppt/slides/_rels\<close>
  (\<open>None\<close> when the directory is missing) with what \<open>ET.parse\<close> gives for each entry; and
  what \<open>ET.parse\<close> gives for a file name under \<open>ppt/slides\<close>. The loop writes only files
  that it has parsed, so \<open>exists_on_disk\<close> does not change while it runs.
\<close>

record package =
  exists_on_disk :: "pystr \<Rightarrow> bool"
  rels_dir :: "(pystr \<times> (error + xml)) list option"
  slides_dir :: "pystr \<Rightarrow> error + xml"

definition temp_dir :: pystr where
  "temp_dir = py ''temp_pptx''"

text \<open>Line 240: the path that is tested for a relationship target.\<close>

definition image_path :: "pystr \<Rightarrow> pystr" where
  "image_path target =
     replace (py ''../'') []
       (path_join (path_join temp_dir (py ''ppt'')) (lstrip_slash target))"

subsection \<open>Lines 236 to 244: the relationships of one file\<close>

text \<open>
  \<open>findall\<close> returns a list, so removing a child while the loop runs skips nothing. The
  function goes through the children of the root; a child that is not a
  \<open>Relationship\<close> element is not visited and stays. It returns \<open>removed_ids\<close> and the
  children that are left.
\<close>

fun repair_relationships ::
    "(pystr \<Rightarrow> bool) \<Rightarrow> xml list \<Rightarrow> error + (pystr list \<times> xml list)" where
  "repair_relationships ex [] = Inr ([], [])"
| "repair_relationships ex (relationship # rest) =
     (if tag relationship \<noteq> Relationship_tag
      then (case repair_relationships ex rest of
              Inl e \<Rightarrow> Inl e
            | Inr (removed_ids, kept) \<Rightarrow> Inr (removed_ids, relationship # kept))
      else case map_of (attrib relationship) (py ''Type'') of
        None \<Rightarrow> Inl (KeyError (py ''Type''))
      | Some ty \<Rightarrow>
          if \<not> contains (py ''image'') ty
          then (case repair_relationships ex rest of
                  Inl e \<Rightarrow> Inl e
                | Inr (removed_ids, kept) \<Rightarrow> Inr (removed_ids, relationship # kept))
          else case map_of (attrib relationship) (py ''Target'') of
            None \<Rightarrow> Inl (KeyError (py ''Target''))
          | Some target \<Rightarrow>
              if ex (image_path target)
              then (case repair_relationships ex rest of
                      Inl e \<Rightarrow> Inl e
                    | Inr (removed_ids, kept) \<Rightarrow> Inr (removed_ids, relationship # kept))
              else case map_of (attrib relationship) (py ''Id'') of
                None \<Rightarrow> Inl (KeyError (py ''Id''))
              | Some rid \<Rightarrow>
                  (case repair_relationships ex rest of
                     Inl e \<Rightarrow> Inl e
                   | Inr (removed_ids, kept) \<Rightarrow> Inr (rid # removed_ids, kept)))"

subsection \<open>Lines 252 to 255: the pictures of one slide\<close>

text \<open>
  For a picture whose first \<open>blip\<close> carries an embed id of \<open>removed_ids\<close>, line 255 calls
  \<open>pic.getparent()\<close>. The elements come from \<open>xml.etree.ElementTree\<close> (line 13), which
  has no such method: the call raises \<open>AttributeError\<close> and nothing is removed. The loop
  therefore either raises or leaves the slide as it was.
\<close>

fun remove_pics :: "pystr list \<Rightarrow> xml list \<Rightarrow> error + unit" where
  "remove_pics removed_ids [] = Inr ()"
| "remove_pics removed_ids (pic # pics) =
     (case find_descendant blip_tag pic of
        None \<Rightarrow> remove_pics removed_ids pics
      | Some blip \<Rightarrow>
          (case map_of (attrib blip) embed_attr of
             None \<Rightarrow> Inl (KeyError embed_attr)
           | Some rid \<Rightarrow>
               if rid \<in> set removed_ids then Inl (AttributeError (py ''getparent''))
               else remove_pics removed_ids pics))"

subsection \<open>Lines 229 to 257: the loop over the listing\<close>

definition slide_file_of :: "pystr \<Rightarrow> pystr" where
  "slide_file_of rels_file = replace (py ''.rels'') [] rels_file"

text \<open>
  The state is the listing with the documents written so far and the slide files. An
  exception ends the run; the files written before it stay written, which the result
  \<open>Inl\<close> does not record.
\<close>

fun repair_files ::
    "(pystr \<Rightarrow> bool) \<Rightarrow> (pystr \<times> (error + xml)) list \<Rightarrow> (pystr \<Rightarrow> error + xml)
     \<Rightarrow> error + ((pystr \<times> (error + xml)) list \<times> (pystr \<Rightarrow> error + xml))" where
  "repair_files ex [] slides = Inr ([], slides)"
| "repair_files ex ((rels_file, parsed) # rest) slides =
     (if \<not> endswith rels_file (py ''.rels'')
      then (case repair_files ex rest slides of
              Inl e \<Rightarrow> Inl e
            | Inr (written, slides') \<Rightarrow> Inr ((rels_file, parsed) # written, slides'))
      else case parsed of
        Inl e \<Rightarrow> Inl e
      | Inr root_elem \<Rightarrow>
          (case repair_relationships ex (children root_elem) of
             Inl e \<Rightarrow> Inl e
           | Inr (removed_ids, kept) \<Rightarrow>
               (case slides (slide_file_of rels_file) of
                  Inl e \<Rightarrow> Inl e
                | Inr slide_root \<Rightarrow>
                    (case remove_pics removed_ids (findall_descendants pic_tag slide_root) of
                       Inl e \<Rightarrow> Inl e
                     | Inr u \<Rightarrow>
                         (case repair_files ex rest
                                 (slides(slide_file_of rels_file := Inr slide_root)) of
                            Inl e \<Rightarrow> Inl e
                          | Inr (written, slides') \<Rightarrow>
                              Inr ((rels_file, Inr (Element (tag root_elem) (attrib root_elem) kept))
                                     # written, slides'))))))"

definition reference_repair :: "package \<Rightarrow> error + package" where
  "reference_repair pkg =
     (case rels_dir pkg of
        None \<Rightarrow> Inl (FileNotFoundError (py ''temp_pptx/ppt/slides/_rels''))
      | Some listing \<Rightarrow>
          (case repair_files (exists_on_disk pkg) listing (slides_dir pkg) of
             Inl e \<Rightarrow> Inl e
           | Inr (written, slides') \<Rightarrow>
               Inr (pkg\<lparr>rels_dir := Some written, slides_dir := slides'\<rparr>)))"

subsection \<open>clean_pptx\<close>

text \<open>
  The directory \<open>temp_pptx\<close> as \<open>extractall\<close> leaves it (lines 214 to 218): the listing
  of the media directory (\<open>None\<close> when the archive has none), the listing of the
  relationship files and the slide files. \<open>present removed\<close> is \<open>os.path.exists\<close> once the
  paths \<open>removed\<close> have been deleted. The result of \<open>clean_pptx\<close> is the directory that
  lines 259 to 262 pack into the new archive; \<open>num_slides\<close> is the slide count of the
  presentation at \<open>pptx_path\<close>.
\<close>

record extracted =
  media :: "dir_entry list option"
  present :: "pystr list \<Rightarrow> pystr \<Rightarrow> bool"
  rels_files :: "(pystr \<times> (error + xml)) list option"
  slide_files :: "pystr \<Rightarrow> error + xml"

definition image_dir :: pystr where
  "image_dir = path_join (py ''temp_pptx'') (path_join (py ''ppt'') (py ''media''))"

definition clean_pptx ::
    "'st sha1_impl \<Rightarrow> os_env \<Rightarrow> pystr \<Rightarrow> nat \<Rightarrow> extracted \<Rightarrow> error + package" where
  "clean_pptx h env pptx_path num_slides wd =
     (if \<not> os_path_exists env pptx_path
      then Inl (FileNotFoundError (py ''The specified PPTX file does not exist: '' @ pptx_path))
      else case media wd of
        None \<Rightarrow> Inl (FileNotFoundError image_dir)
      | Some listing \<Rightarrow>
          reference_repair
            \<lparr>exists_on_disk =
               present wd (remove_repetitive_images h num_slides image_dir listing),
             rels_dir = rels_files wd,
             slides_dir = slide_files wd\<rparr>)"

subsection \<open>What the claims say of a repaired package\<close>

text \<open>The image relationships of a relationship document, and the media directory.\<close>

definition image_relationships :: "xml \<Rightarrow> xml list" where
  "image_relationships root_elem =
     filter (\<lambda>r. tag r = Relationship_tag \<and>
                 (case map_of (attrib r) (py ''Type'') of
                    None \<Rightarrow> False | Some ty \<Rightarrow> contains (py ''image'') ty))
            (children root_elem)"

definition in_media_dir :: "pystr \<Rightarrow> bool" where
  "in_media_dir p =
     (take (length (py ''temp_pptx/ppt/media/'')) p = py ''temp_pptx/ppt/media/'')"



subsection \<open>Packages for the examples\<close>

definition image_type :: pystr where
  "image_type =
     py ''http://schemas.openxmlformats.org/officeDocument/2006/relationships/image''"

definition layout_type :: pystr where
  "layout_type =
     py ''http://schemas.openxmlformats.org/officeDocument/2006/relationships/slideLayout''"

definition relationship_elem :: "string \<Rightarrow> pystr \<Rightarrow> string \<Rightarrow> xml" where
  "relationship_elem rid ty target =
     Element Relationship_tag
       [(py ''Id'', py rid), (py ''Type'', ty), (py ''Target'', py target)] []"

definition relationships_doc :: "xml list \<Rightarrow> xml" where
  "relationships_doc rs =
     Element (qname ''http://schemas.openxmlformats.org/package/2006/relationships''
                ''Relationships'') [] rs"

definition pic_elem :: "string \<Rightarrow> xml" where
  "pic_elem rid =
     Element pic_tag []
       [Element (qname ''http://schemas.openxmlformats.org/presentationml/2006/main''
                   ''blipFill'') []
          [Element blip_tag [(embed_attr, py rid)] []]]"

definition slide_doc :: "xml list \<Rightarrow> xml" where
  "slide_doc shapes =
     Element (qname ''http://schemas.openxmlformats.org/presentationml/2006/main'' ''sld'') []
       [Element (qname ''http://schemas.openxmlformats.org/presentationml/2006/main''
                   ''spTree'') [] shapes]"

definition one_slide :: "dir_entry list \<Rightarrow> pystr list \<Rightarrow> xml list \<Rightarrow> xml list \<Rightarrow> extracted" where
  "one_slide pictures others rs shapes =
     \<lparr>media = Some pictures,
      present = (\<lambda>removed p.
                  (p \<in> set (map (\<lambda>e. path_join image_dir (filename e)) pictures)
                   \<or> p \<in> set others) \<and> p \<notin> set removed),
      rels_files = Some [(py ''slide1.xml.rels'', Inr (relationships_doc rs))],
      slide_files = (\<lambda>name. if name = py ''slide1.xml'' then Inr (slide_doc shapes)
                             else Inl (FileNotFoundError name))\<rparr>"

text \<open>
  The directory after a run that raised nothing: \<open>removed\<close> are the paths deleted from the
  media directory, \<open>rs\<close> the relationships that are left.
\<close>

definition cleaned :: "extracted \<Rightarrow> pystr list \<Rightarrow> xml list \<Rightarrow> package" where
  "cleaned wd removed rs =
     \<lparr>exists_on_disk = present wd removed,
      rels_dir = Some [(py ''slide1.xml.rels'', Inr (relationships_doc rs))],
      slides_dir = slide_files wd\<rparr>"

definition everything_exists :: os_env where
  "everything_exists =
     \<lparr>os_path_exists = (\<lambda>p. True),
      os_path_splitext = (\<lambda>p. (p, [])),
      os_path_dirname = (\<lambda>p. []),
      subprocess_run = (\<lambda>cmd. Inr 0)\<rparr>"

text \<open>
  Four decks of ten slides, of which the first slide is given. In \<open>faded_background\<close> the
  media directory is that of \<open>ten_slide_media\<close>; the slide shows \<open>image2.png\<close> as a
  picture and has a relationship to \<open>image1.png\<close>, the background that the pruning
  deletes, to which no picture element refers. In \<open>lost_picture\<close> the slide shows that
  background as a picture. In \<open>images_outside_media\<close> the picture of the slide lies in
  \<open>ppt/images\<close>. In \<open>dangling_picture\<close> the picture names a relationship that the
  relationship document never had.
\<close>

definition faded_background :: extracted where
  "faded_background =
     one_slide ten_slide_media []
       [relationship_elem ''rId1'' layout_type ''../slideLayouts/slideLayout1.xml'',
        relationship_elem ''rId2'' image_type ''../media/image2.png'',
        relationship_elem ''rId3'' image_type ''../media/image1.png'']
       [pic_elem ''rId2'']"

definition lost_picture :: extracted where
  "lost_picture =
     one_slide ten_slide_media []
       [relationship_elem ''rId1'' layout_type ''../slideLayouts/slideLayout1.xml'',
        relationship_elem ''rId2'' image_type ''../media/image1.png'']
       [pic_elem ''rId2'']"

definition images_outside_media :: extracted where
  "images_outside_media =
     one_slide [image_file ''image1.png'' [1]] [py ''temp_pptx/ppt/images/logo.png'']
       [relationship_elem ''rId1'' layout_type ''../slideLayouts/slideLayout1.xml'',
        relationship_elem ''rId2'' image_type ''../images/logo.png'']
       [pic_elem ''rId2'']"


text \<open>The nine paths that the pruning deletes from \<open>ten_slide_media\<close>.\<close>

definition nine_copies :: "pystr list" where
  "nine_copies =
     map (\<lambda>n. py ''temp_pptx/ppt/media/image'' @ py n @ py ''.png'')
       [''1'', ''3'', ''4'', ''5'', ''7'', ''8'', ''9'', ''10'', ''11'']"

section \<open>Presentations and the two style passes\<close>

subsection \<open>Objects of a presentation\<close>

text \<open>
  The passes act on run and paragraph objects in place. Every run and every paragraph is
  an object with an address. For a run the store holds what the document says of its
  characters: typeface, character spacing, italic, colour and size; for a paragraph its
  line spacing, which the document keeps either as a number of 1/100000 of a line or as a
  number of hundredths of a point. \<open>None\<close> is a property that the document does not set.
\<close>

type_synonym addr = nat

record font =
  f_name :: "pystr option"
  f_space :: "int option"
  f_italic :: "bool option"
  f_color_rgb :: "(nat \<times> nat \<times> nat) option"
  f_size :: "int option"

datatype line_spacing = SpcPct int | SpcPts int

record store =
  fonts :: "addr \<Rightarrow> font"
  line_spacings :: "addr \<Rightarrow> line_spacing option"

text \<open>\<open>Pt(n)\<close> is a length of \<open>n\<close> points, an integer number of English Metric Units.\<close>

definition Pt :: "int \<Rightarrow> int" where
  "Pt points = points * 12700"

text \<open>
  A paragraph is its own address and the addresses of \<open>paragraph.runs\<close>; a text frame is
  the list \<open>text_frame.paragraphs\<close>; a table is the list of its rows, a row the list of the
  text frames of its cells.
\<close>

datatype para = Paragraph (para_addr: addr) (runs: "addr list")

type_synonym text_frame = "para list"

text \<open>
  The shape classes of the library. Only an auto shape (a text box or a placeholder among
  them) answers \<open>has_text_frame\<close> with true, only a graphic frame that holds a table
  answers \<open>has_table\<close> with true, and only a group shape has the shape type 6. Every other
  shape has one of the remaining kinds; the text frame it carries stands for the objects
  that belong to it.
\<close>

datatype other_kind =
  PICTURE | LINE | CHART | EMBEDDED_OLE_OBJECT | LINKED_OLE_OBJECT | MEDIA | UNKNOWN_FRAME

datatype shape =
    AutoShape text_frame
  | TableFrame "text_frame list list"
  | GroupShape "shape list"
  | OtherShape other_kind text_frame

fun has_text_frame :: "shape \<Rightarrow> bool" where
  "has_text_frame (AutoShape tf) = True"
| "has_text_frame s = False"

fun has_table :: "shape \<Rightarrow> bool" where
  "has_table (TableFrame rows) = True"
| "has_table s = False"

fun shape_type :: "shape \<Rightarrow> int option" where
  "shape_type (AutoShape tf) = Some 1"
| "shape_type (TableFrame rows) = Some 19"
| "shape_type (GroupShape cs) = Some 6"
| "shape_type (OtherShape PICTURE tf) = Some 13"
| "shape_type (OtherShape LINE tf) = Some 9"
| "shape_type (OtherShape CHART tf) = Some 3"
| "shape_type (OtherShape EMBEDDED_OLE_OBJECT tf) = Some 7"
| "shape_type (OtherShape LINKED_OLE_OBJECT tf) = Some 10"
| "shape_type (OtherShape MEDIA tf) = Some 16"
| "shape_type (OtherShape UNKNOWN_FRAME tf) = None"

fun text_frame :: "shape \<Rightarrow> text_frame" where
  "text_frame (AutoShape tf) = tf"
| "text_frame s = []"

fun table_rows :: "shape \<Rightarrow> text_frame list list" where
  "table_rows (TableFrame rows) = rows"
| "table_rows s = []"

fun shapes :: "shape \<Rightarrow> shape list" where
  "shapes (GroupShape cs) = cs"
| "shapes s = []"

type_synonym slide = "shape list"
type_synonym presentation = "slide list"

subsection \<open>The property setters of the library\<close>

text \<open>
  \<open>run.font\<close> is a new \<open>Font\<close> object on every access, a view of the character
  properties of the run. Its properties \<open>name\<close>, \<open>italic\<close>, \<open>size\<close> and \<open>color.rgb\<close>
  write to the document. \<open>Font\<close> has no property \<open>space\<close>: the assignment of lines 87 and
  98 gives the view an attribute of that name, the view is dropped at the end of the
  statement, and the character spacing of the run is what it was.

  A typeface is an XML attribute value: a string with a control character other than
  tab, line feed and carriage return, or with U+FFFE or U+FFFF, is refused with
  \<open>ValueError\<close>, and one with a surrogate cannot be encoded. A size is kept in hundredths
  of a point and must lie between 100 and 400000.
\<close>

definition xml_compatible :: "pystr \<Rightarrow> bool" where
  "xml_compatible s =
     list_all (\<lambda>c. c = 9 \<or> c = 10 \<or> c = 13 \<or> (32 \<le> c \<and> c \<noteq> 65534 \<and> c \<noteq> 65535)) s"

definition has_surrogate :: "pystr \<Rightarrow> bool" where
  "has_surrogate s = list_ex (\<lambda>c. 55296 \<le> c \<and> c \<le> 57343) s"

definition set_name :: "pystr \<Rightarrow> font \<Rightarrow> error + font" where
  "set_name value f =
     (if has_surrogate value then Inl UnicodeError
      else if \<not> xml_compatible value then Inl ValueError
      else Inr (f\<lparr>f_name := Some value\<rparr>))"

definition set_space :: "int \<Rightarrow> font \<Rightarrow> error + font" where
  "set_space value f = Inr f"

definition set_italic :: "bool \<Rightarrow> font \<Rightarrow> error + font" where
  "set_italic value f = Inr (f\<lparr>f_italic := Some value\<rparr>)"

definition set_color_rgb :: "nat \<times> nat \<times> nat \<Rightarrow> font \<Rightarrow> error + font" where
  "set_color_rgb value f = Inr (f\<lparr>f_color_rgb := Some value\<rparr>)"

definition set_size :: "int \<Rightarrow> font \<Rightarrow> error + font" where
  "set_size emu f =
     (let centipoints = emu div 127
      in if 100 \<le> centipoints \<and> centipoints \<le> 400000
         then Inr (f\<lparr>f_size := Some (centipoints * 127)\<rparr>)
         else Inl ValueError)"

text \<open>
  \<open>paragraph.line_spacing = value\<close> with a number that is not a length: the number must
  lie between 0 and 132, and the document keeps \<open>round(value * 100000.0)\<close>. The value is
  a double, the product is the double nearest to the exact product, and \<open>round\<close> takes
  a tie to the even integer. A double is the rational number it stands for.
\<close>

fun bit_length :: "nat \<Rightarrow> nat" where
  "bit_length n = (if n = 0 then 0 else Suc (bit_length (n div 2)))"

declare bit_length.simps [simp del]

definition pow2 :: "int \<Rightarrow> rat" where
  "pow2 d = (if 0 \<le> d then 2 ^ nat d else 1 / 2 ^ nat (- d))"

text \<open>For \<open>x > 0\<close>, the exponent \<open>e\<close> with \<open>2^e \<le> x < 2^(e+1)\<close>.\<close>

definition ilog2 :: "rat \<Rightarrow> int" where
  "ilog2 x =
     (if 1 \<le> x then int (bit_length (nat \<lfloor>x\<rfloor>)) - 1
      else - int (bit_length (nat (\<lceil>1 / x\<rceil> - 1))))"

definition py_round :: "rat \<Rightarrow> int" where
  "py_round x =
     (let f = \<lfloor>x\<rfloor>; d = x - of_int f
      in if d < 1 / 2 then f
         else if 1 / 2 < d then f + 1
         else if even f then f else f + 1)"

text \<open>
  The double nearest to a rational that is not negative, ties to the even significand:
  53 bits above \<open>2^-1022\<close>, multiples of \<open>2^-1074\<close> below. The products that occur are
  far from the largest double.
\<close>

definition to_double :: "rat \<Rightarrow> rat" where
  "to_double x =
     (if x \<le> 0 then 0
      else (let ulp = pow2 (max (ilog2 x - 52) (- 1074))
            in of_int (py_round (x / ulp)) * ulp))"

definition spc_pct :: "rat \<Rightarrow> int" where
  "spc_pct value = py_round (to_double (value * 100000))"

definition set_line_spacing :: "rat \<Rightarrow> error + line_spacing" where
  "set_line_spacing value =
     (if value < 0 \<or> 132 < value then Inl ValueError else Inr (SpcPct (spc_pct value)))"

subsection \<open>The traversal\<close>

text \<open>
  A \<open>for\<close> loop whose body may raise: the exception ends the loop. The result \<open>Inl\<close> does
  not record what the statements before the exception have written.
\<close>

fun for_each :: "('x \<Rightarrow> store \<Rightarrow> error + store) \<Rightarrow> 'x list \<Rightarrow> store \<Rightarrow> error + store" where
  "for_each body [] st = Inr st"
| "for_each body (x # xs) st =
     (case body x st of Inl e \<Rightarrow> Inl e | Inr st' \<Rightarrow> for_each body xs st')"

text \<open>
  Both passes walk the shapes of a slide with the same loop (lines 80 to 104 and 120 to
  132) and differ in what they do with a paragraph, which is the parameter \<open>body\<close>. The
  list \<open>shapes_to_process\<close> is kept with its last element first: \<open>pop()\<close> takes the head,
  \<open>extend\<close> puts the children in front, the last child first.
\<close>

fun count_shapes :: "shape \<Rightarrow> nat" where
  "count_shapes (GroupShape cs) = Suc (sum_list (map count_shapes cs))"
| "count_shapes s = 1"

lemma count_shapes_positive: "0 < count_shapes s"
  by (cases s) auto

definition for_paragraphs ::
    "(store \<Rightarrow> para \<Rightarrow> error + store) \<Rightarrow> store \<Rightarrow> text_frame \<Rightarrow> error + store" where
  "for_paragraphs body st paragraphs = for_each (\<lambda>paragraph st. body st paragraph) paragraphs st"

definition for_cells ::
    "(store \<Rightarrow> para \<Rightarrow> error + store) \<Rightarrow> store \<Rightarrow> text_frame list list \<Rightarrow> error + store" where
  "for_cells body st rows =
     for_each (\<lambda>row st. for_each (\<lambda>cell st. for_paragraphs body st cell) row st) rows st"

function walk_shapes ::
    "(store \<Rightarrow> para \<Rightarrow> error + store) \<Rightarrow> store \<Rightarrow> shape list \<Rightarrow> error + store" where
  "walk_shapes body st [] = Inr st"
| "walk_shapes body st (shape # shapes_to_process) =
     (if has_text_frame shape
      then (case for_paragraphs body st (text_frame shape) of
              Inl e \<Rightarrow> Inl e
            | Inr st' \<Rightarrow> walk_shapes body st' shapes_to_process)
      else if has_table shape
      then (case for_cells body st (table_rows shape) of
              Inl e \<Rightarrow> Inl e
            | Inr st' \<Rightarrow> walk_shapes body st' shapes_to_process)
      else if shape_type shape = Some 6
      then walk_shapes body st (rev (shapes shape) @ shapes_to_process)
      else walk_shapes body st shapes_to_process)"
  by pat_completeness auto
termination
proof (relation "measure (\<lambda>(body, st, stack). sum_list (map count_shapes stack))")
  fix body :: "store \<Rightarrow> para \<Rightarrow> error + store" and st :: store
    and shape :: shape and shapes_to_process :: "shape list"
  assume "shape_type shape = Some 6"
  then obtain cs where "shape = GroupShape cs"
    by (cases shape rule: shape_type.cases) auto
  then show "((body, st, rev (shapes shape) @ shapes_to_process),
              (body, st, shape # shapes_to_process))
             \<in> measure (\<lambda>(body, st, stack). sum_list (map count_shapes stack))"
    by (simp add: rev_map [symmetric])
qed (auto simp: count_shapes_positive)

definition for_slides ::
    "(store \<Rightarrow> para \<Rightarrow> error + store) \<Rightarrow> presentation \<Rightarrow> store \<Rightarrow> error + store" where
  "for_slides body prs st = for_each (\<lambda>slide st. walk_shapes body st (rev slide)) prs st"

subsection \<open>modify_presentation_font\<close>

text \<open>
  Lines 71 to 77. \<open>stdin\<close> holds the lines that \<open>input\<close> will read; at the end of the input
  \<open>input\<close> raises \<open>EOFError\<close>.
\<close>

fun ask :: "pystr list \<Rightarrow> error + pystr" where
  "ask [] = Inl EOFError"
| "ask (answer # stdin) =
     (if answer \<in> set [py ''yes'', py ''no''] then Inr answer else ask stdin)"

text \<open>Lines 86 to 91 and 97 to 102: the five statements for one run, in their order.\<close>

definition style_run ::
    "pystr \<Rightarrow> int \<Rightarrow> int \<Rightarrow> bool \<Rightarrow> store \<Rightarrow> addr \<Rightarrow> error + store" where
  "style_run font_name font_size spacing_size change_font_size st run =
     (case set_name font_name (fonts st run) of
        Inl e \<Rightarrow> Inl e
      | Inr f1 \<Rightarrow>
      (case set_space (Pt spacing_size) f1 of
        Inl e \<Rightarrow> Inl e
      | Inr f2 \<Rightarrow>
      (case set_italic False f2 of
        Inl e \<Rightarrow> Inl e
      | Inr f3 \<Rightarrow>
      (case set_color_rgb (0, 0, 0) f3 of
        Inl e \<Rightarrow> Inl e
      | Inr f4 \<Rightarrow>
      (case (if change_font_size then set_size (Pt font_size) f4 else Inr f4) of
        Inl e \<Rightarrow> Inl e
      | Inr f5 \<Rightarrow> Inr (st\<lparr>fonts := (fonts st)(run := f5)\<rparr>))))))"

definition style_paragraph ::
    "pystr \<Rightarrow> int \<Rightarrow> int \<Rightarrow> bool \<Rightarrow> store \<Rightarrow> para \<Rightarrow> error + store" where
  "style_paragraph font_name font_size spacing_size change_font_size st paragraph =
     for_each (\<lambda>run st. style_run font_name font_size spacing_size change_font_size st run)
              (runs paragraph) st"

definition modify_presentation_font ::
    "pystr list \<Rightarrow> presentation \<Rightarrow> pystr \<Rightarrow> int \<Rightarrow> int \<Rightarrow> store \<Rightarrow> error + store" where
  "modify_presentation_font stdin prs font_name font_size spacing_size st =
     (case ask stdin of
        Inl e \<Rightarrow> Inl e
      | Inr answer \<Rightarrow>
          (let change_font_size = (answer = py ''yes'')
           in for_slides
                (style_paragraph font_name font_size spacing_size change_font_size)
                prs st))"

subsection \<open>modify_presentation_spacing\<close>

definition space_paragraph :: "rat \<Rightarrow> store \<Rightarrow> para \<Rightarrow> error + store" where
  "space_paragraph line_spacing_value st paragraph =
     (case set_line_spacing line_spacing_value of
        Inl e \<Rightarrow> Inl e
      | Inr stored \<Rightarrow>
          Inr (st\<lparr>line_spacings := (line_spacings st)(para_addr paragraph := Some stored)\<rparr>))"

definition modify_presentation_spacing :: "presentation \<Rightarrow> rat \<Rightarrow> store \<Rightarrow> error + store" where
  "modify_presentation_spacing prs line_spacing_value st =
     for_slides (space_paragraph line_spacing_value) prs st"

subsection \<open>The text of a presentation\<close>

text \<open>
  The paragraphs of the text frames and table cells of a shape, a group standing for the
  shapes in it at any depth; and from them the runs and paragraphs of a presentation that
  the claims call its text.
\<close>

fun shape_paragraphs :: "shape \<Rightarrow> para list" where
  "shape_paragraphs (AutoShape tf) = tf"
| "shape_paragraphs (TableFrame rows) = concat (concat rows)"
| "shape_paragraphs (GroupShape cs) = concat (map shape_paragraphs cs)"
| "shape_paragraphs (OtherShape k tf) = []"

definition stack_paragraphs :: "shape list \<Rightarrow> para set" where
  "stack_paragraphs stack = (\<Union>s \<in> set stack. set (shape_paragraphs s))"

definition text_paragraphs :: "presentation \<Rightarrow> para set" where
  "text_paragraphs prs = (\<Union>slide \<in> set prs. \<Union>s \<in> set slide. set (shape_paragraphs s))"

definition text_runs :: "presentation \<Rightarrow> addr set" where
  "text_runs prs = (\<Union>p \<in> text_paragraphs prs. set (runs p))"

text \<open>Every shape of a presentation, those inside groups included.\<close>

fun nested_shapes :: "shape \<Rightarrow> shape list" where
  "nested_shapes (GroupShape cs) = GroupShape cs # concat (map nested_shapes cs)"
| "nested_shapes s = [s]"

definition all_shapes :: "presentation \<Rightarrow> shape set" where
  "all_shapes prs = (\<Union>slide \<in> set prs. \<Union>s \<in> set slide. set (nested_shapes s))"

text \<open>
  The paragraphs that belong to a shape of whatever kind, and what the store says of a
  paragraph: its line spacing and the fonts of its runs.
\<close>

fun shape_objects :: "shape \<Rightarrow> para list" where
  "shape_objects (AutoShape tf) = tf"
| "shape_objects (TableFrame rows) = concat (concat rows)"
| "shape_objects (GroupShape cs) = concat (map shape_objects cs)"
| "shape_objects (OtherShape k tf) = tf"

definition look :: "store \<Rightarrow> para \<Rightarrow> line_spacing option \<times> font list" where
  "look st p = (line_spacings st (para_addr p), map (fonts st) (runs p))"

text \<open>
  No object of the shape is at the same time an object of the text of the presentation:
  two shapes do not share a paragraph or a run.
\<close>

definition apart :: "presentation \<Rightarrow> shape \<Rightarrow> bool" where
  "apart prs s =
     list_all (\<lambda>p. para_addr p \<notin> para_addr ` text_paragraphs prs
                    \<and> set (runs p) \<inter> text_runs prs = {})
              (shape_objects s)"

subsection \<open>A presentation for the examples\<close>

text \<open>
  One slide: a picture that owns paragraph 30 with run 3, and a group of a text box
  (paragraph 10, runs 0 and 1) and an inner group with a table of one cell (paragraph 20,
  run 2). Every run is red, italic, 24 points, with no character spacing set; no
  paragraph has a line spacing. \<open>double_1_2\<close> is the double that the literal \<open>1.2\<close> of line
  437 denotes.
\<close>

definition deck :: presentation where
  "deck =
     [[OtherShape PICTURE [Paragraph 30 [3]],
       GroupShape
         [AutoShape [Paragraph 10 [0, 1]],
          GroupShape [TableFrame [[[Paragraph 20 [2]]]]]]]]"

definition red_italic :: font where
  "red_italic =
     \<lparr>f_name = Some (py ''Arial''), f_space = None, f_italic = Some True,
      f_color_rgb = Some (255, 0, 0), f_size = Some (Pt 24)\<rparr>"

definition plain_store :: store where
  "plain_store = \<lparr>fonts = (\<lambda>a. red_italic), line_spacings = (\<lambda>a. None)\<rparr>"

definition double_1_2 :: rat where
  "double_1_2 = 5404319552844595 / 4503599627370496"

section \<open>Results about ascii_to_braille\<close>

text \<open>
  C10. An input whose stripped form is not empty and occurs in the list of line 31 is
  returned as it is, and no process is started. For every other input the translator is
  started, and when it starts and the text can be encoded, the encoded text is what the
  process receives.
\<close>

theorem ascii_to_braille_non_translatable:
  "(strip text \<noteq> [] \<and> strip text \<in> set non_translatable_chars \<longrightarrow>
      ascii_to_braille env text = (Inr text, []))
   \<and> (\<not> (strip text \<noteq> [] \<and> strip text \<in> set non_translatable_chars) \<longrightarrow>
        (\<exists>rest. snd (ascii_to_braille env text) = Popen lou_translate_cmd # rest)
        \<and> (\<forall>inp. spawns env \<and> encode env text = Some inp \<longrightarrow>
              snd (ascii_to_braille env text) = [Popen lou_translate_cmd, Communicate inp]))"
  by (auto simp: ascii_to_braille_def Let_def split: option.splits)

theorem ascii_to_braille_non_translatable_witness:
  "ascii_to_braille (echo_env 0) (py '' A.  '') = (Inr (py '' A.  ''), [])
   \<and> snd (ascii_to_braille (echo_env 0) (py ''A''))
       = [Popen lou_translate_cmd, Communicate [0x41]]"
proof -
  have m: "strip (py '' A.  '') \<noteq> [] \<and> strip (py '' A.  '') \<in> set non_translatable_chars"
    by (simp add: strip_def py_def isspace_def non_translatable_chars_def)
  have n: "\<not> (strip (py ''A'') \<noteq> [] \<and> strip (py ''A'') \<in> set non_translatable_chars)"
    by (simp add: strip_def py_def isspace_def non_translatable_chars_def)
  have e: "spawns (echo_env 0) \<and> encode (echo_env 0) (py ''A'') = Some [0x41]"
    by (simp add: echo_env_def py_def)
  from ascii_to_braille_non_translatable [of "py '' A.  ''" "echo_env 0"] m
  have a: "ascii_to_braille (echo_env 0) (py '' A.  '') = (Inr (py '' A.  ''), [])"
    by blast
  from ascii_to_braille_non_translatable [of "py ''A''" "echo_env 0"] n e
  have b: "snd (ascii_to_braille (echo_env 0) (py ''A''))
             = [Popen lou_translate_cmd, Communicate [0x41]]"
    by blast
  from a b show ?thesis by simp
qed

text \<open>
  C6, as claimed, fails on a stream that is not UTF-8. With exit status 1 and the
  standard error \<open>b'\xff'\<close> the call \<open>stderr.decode()\<close> of line 41 raises
  \<open>UnicodeDecodeError\<close> before the exception of line 41 exists, and with exit status 0 and
  the standard output \<open>b'\xff'\<close> line 42 raises it too and nothing is returned.
\<close>

theorem ascii_to_braille_undecodable_counterexample:
  "returncode (communicate (fixed_env 1 [] [0xFF]) [0x41]) = 1
   \<and> fst (ascii_to_braille (fixed_env 1 [] [0xFF]) (py ''A'')) = Inl UnicodeError
   \<and> returncode (communicate (fixed_env 0 [0xFF] []) [0x41]) = 0
   \<and> fst (ascii_to_braille (fixed_env 0 [0xFF] []) (py ''A'')) = Inl UnicodeError"
  by (simp add: ascii_to_braille_def fixed_env_def py_def strip_def isspace_def
        non_translatable_chars_def Let_def)

text \<open>
  C6. When the translator runs (the input is not one of line 31, the process starts, the
  text can be encoded): with a non-zero exit status the function raises the exception
  whose message ends with the decoded standard error if the standard error can be
  decoded, and \<open>UnicodeDecodeError\<close> if it cannot; with exit status zero it returns the
  decoded standard output if the standard output can be decoded, and raises
  \<open>UnicodeDecodeError\<close> if it cannot. So the exception that carries the standard error is
  raised only after a non-zero exit status, and a non-zero exit status always ends in an
  exception. The stream that a branch does not read plays no part.
\<close>

theorem ascii_to_braille_exit_status:
  assumes "\<not> (strip text \<noteq> [] \<and> strip text \<in> set non_translatable_chars)"
    and "spawns env"
    and "encode env text = Some inp"
  shows "(returncode (communicate env inp) \<noteq> 0 \<longrightarrow>
            (\<forall>msg. decode env (stderr (communicate env inp)) = Some msg \<longrightarrow>
               fst (ascii_to_braille env text)
                 = Inl (Exception (py ''lou_translate failed: '' @ msg)))
            \<and> (decode env (stderr (communicate env inp)) = None \<longrightarrow>
                 fst (ascii_to_braille env text) = Inl UnicodeError)
            \<and> (\<exists>e. fst (ascii_to_braille env text) = Inl e))
         \<and> (returncode (communicate env inp) = 0 \<longrightarrow>
              (\<forall>out. decode env (stdout (communicate env inp)) = Some out \<longrightarrow>
                 fst (ascii_to_braille env text) = Inr out)
              \<and> (decode env (stdout (communicate env inp)) = None \<longrightarrow>
                   fst (ascii_to_braille env text) = Inl UnicodeError))
         \<and> ((\<exists>msg. fst (ascii_to_braille env text) = Inl (Exception msg)) \<longrightarrow>
              returncode (communicate env inp) \<noteq> 0)"
proof -
  from assms(1) have skip: "(strip text \<noteq> [] \<and> strip text \<in> set non_translatable_chars) = False"
    by simp
  show ?thesis
    unfolding ascii_to_braille_def skip
    using assms(2,3) by (auto simp: Let_def split: option.splits)
qed

theorem ascii_to_braille_exit_status_witness:
  "fst (ascii_to_braille (fixed_env 1 [0xFF] [0x62, 0x61, 0x64]) (py ''A''))
     = Inl (Exception (py ''lou_translate failed: bad''))
   \<and> fst (ascii_to_braille (fixed_env 0 [0x41] [0xFF]) (py ''A'')) = Inr (py ''A'')"
proof -
  have n: "\<not> (strip (py ''A'') \<noteq> [] \<and> strip (py ''A'') \<in> set non_translatable_chars)"
    by (simp add: strip_def py_def isspace_def non_translatable_chars_def)
  have s: "spawns (fixed_env rc out err)" for rc out err by (simp add: fixed_env_def)
  have e: "encode (fixed_env rc out err) (py ''A'') = Some [0x41]" for rc out err
    by (simp add: fixed_env_def py_def)
  have d1: "decode (fixed_env 1 [0xFF] [0x62, 0x61, 0x64])
              (stderr (communicate (fixed_env 1 [0xFF] [0x62, 0x61, 0x64]) [0x41]))
            = Some (py ''bad'')"
    by (simp add: fixed_env_def py_def)
  have d0: "decode (fixed_env 0 [0x41] [0xFF])
              (stdout (communicate (fixed_env 0 [0x41] [0xFF]) [0x41]))
            = Some (py ''A'')"
    by (simp add: fixed_env_def py_def)
  have r1: "returncode (communicate (fixed_env 1 [0xFF] [0x62, 0x61, 0x64]) [0x41]) \<noteq> 0"
    by (simp add: fixed_env_def)
  have r0: "returncode (communicate (fixed_env 0 [0x41] [0xFF]) [0x41]) = 0"
    by (simp add: fixed_env_def)
  from ascii_to_braille_exit_status [OF n s e, of 1 "[0xFF]" "[0x62, 0x61, 0x64]"] r1 d1
  have a: "fst (ascii_to_braille (fixed_env 1 [0xFF] [0x62, 0x61, 0x64]) (py ''A''))
             = Inl (Exception (py ''lou_translate failed: '' @ py ''bad''))"
    by blast
  from ascii_to_braille_exit_status [OF n s e, of 0 "[0x41]" "[0xFF]"] r0 d0
  have b: "fst (ascii_to_braille (fixed_env 0 [0x41] [0xFF]) (py ''A'')) = Inr (py ''A'')"
    by blast
  from a b show ?thesis by (simp add: py_def)
qed

section \<open>Results about remove_repetitive_images\<close>

subsection \<open>The two dictionaries after the scan\<close>

lemma map_of_dd_update:
  "map_of (dd_update d f k kvs) = (map_of kvs)(k \<mapsto> f (dd_get d k kvs))"
  by (induction kvs) (auto simp: dd_get_def)

lemma dd_get_dd_update:
  "dd_get d k' (dd_update d f k kvs) = (if k' = k then f (dd_get d k kvs) else dd_get d k' kvs)"
  by (simp add: dd_get_def map_of_dd_update)

lemma keys_dd_update: "fst ` set (dd_update d f k kvs) = insert k (fst ` set kvs)"
proof (induction kvs)
  case Nil
  then show ?case by simp
next
  case (Cons a kvs)
  obtain k' v where a: "a = (k', v)" by (cases a)
  show ?case
  proof (cases "k = k'")
    case True
    then show ?thesis by (simp add: a)
  next
    case False
    then show ?thesis using Cons by (auto simp: a)
  qed
qed

lemma distinct_dd_update:
  "distinct (map fst kvs) \<Longrightarrow> distinct (map fst (dd_update d f k kvs))"
proof (induction kvs)
  case Nil
  then show ?case by simp
next
  case (Cons a kvs)
  obtain k' v where a: "a = (k', v)" by (cases a)
  from Cons have "k' \<notin> fst ` set kvs" and d: "distinct (map fst kvs)" by (auto simp: a)
  then have "k \<noteq> k' \<Longrightarrow> k' \<notin> fst ` set (dd_update d f k kvs)"
    by (simp add: keys_dd_update)
  with Cons d show ?case by (auto simp: a)
qed

lemma scan_dir_counts:
  "scan_dir h dir es (hc, fh) = (hc', fh') \<Longrightarrow>
     dd_get 0 k hc' = dd_get 0 k hc + length (hash_group h es k)"
  by (induction es arbitrary: hc fh)
     (auto simp: hash_group_def Let_def dd_get_dd_update split: if_splits)

lemma scan_dir_files:
  "scan_dir h dir es (hc, fh) = (hc', fh') \<Longrightarrow>
     dd_get [] k fh' = dd_get [] k fh @ map (\<lambda>e. path_join dir (filename e)) (hash_group h es k)"
  by (induction es arbitrary: hc fh)
     (auto simp: hash_group_def Let_def dd_get_dd_update split: if_splits)

lemma scan_dir_keys:
  "scan_dir h dir es (hc, fh) = (hc', fh') \<Longrightarrow>
     fst ` set fh' = fst ` set fh \<union> {hash_file h (content e) | e. e \<in> set es \<and> isfile e}"
  by (induction es arbitrary: hc fh)
     (auto simp: Let_def keys_dd_update split: if_splits)

lemma scan_dir_distinct:
  "scan_dir h dir es (hc, fh) = (hc', fh') \<Longrightarrow> distinct (map fst fh) \<Longrightarrow> distinct (map fst fh')"
  by (induction es arbitrary: hc fh)
     (auto simp: Let_def distinct_dd_update split: if_splits)

lemma dd_get_member:
  "distinct (map fst kvs) \<Longrightarrow> (k, v) \<in> set kvs \<Longrightarrow> dd_get d k kvs = v"
  by (simp add: dd_get_def)

lemma removed_paths:
  "set (remove_repetitive_images h n dir listing) =
     {path_join dir (filename e) | e.
        e \<in> set listing \<and> isfile e
        \<and> threshold n < of_nat (length (hash_group h listing (hash_file h (content e))))}"
  (is "?L = ?R")
proof -
  obtain hc fh where s: "scan_dir h dir listing ([], []) = (hc, fh)"
    by (cases "scan_dir h dir listing ([], [])")
  have cnt: "dd_get 0 k hc = length (hash_group h listing k)" for k
    using scan_dir_counts [OF s, of k] by (simp add: dd_get_def)
  have fls: "dd_get [] k fh = map (\<lambda>e. path_join dir (filename e)) (hash_group h listing k)" for k
    using scan_dir_files [OF s, of k] by (simp add: dd_get_def)
  have keys: "fst ` set fh = {hash_file h (content e) | e. e \<in> set listing \<and> isfile e}"
    using scan_dir_keys [OF s] by simp
  have dist: "distinct (map fst fh)"
    using scan_dir_distinct [OF s] by simp
  have L: "?L = (\<Union>(k, fs) \<in> set fh. if threshold n < of_nat (dd_get 0 k hc) then set fs else {})"
    by (auto simp: remove_repetitive_images_def s split: if_splits)
  show ?thesis
  proof (intro set_eqI iffI)
    fix x assume "x \<in> ?L"
    then obtain k fs where m: "(k, fs) \<in> set fh"
      and t: "threshold n < of_nat (dd_get 0 k hc)" and x: "x \<in> set fs"
      unfolding L by (auto split: if_splits)
    from dd_get_member [OF dist m, of "[]"] fls have "fs = map (\<lambda>e. path_join dir (filename e)) (hash_group h listing k)"
      by simp
    with x obtain e where e: "e \<in> set (hash_group h listing k)" and xe: "x = path_join dir (filename e)"
      by auto
    from e have "e \<in> set listing" "isfile e" "hash_file h (content e) = k"
      by (auto simp: hash_group_def)
    with t xe show "x \<in> ?R" by (auto simp: cnt)
  next
    fix x assume "x \<in> ?R"
    then obtain e where e: "e \<in> set listing" "isfile e"
      and t: "threshold n < of_nat (length (hash_group h listing (hash_file h (content e))))"
      and xe: "x = path_join dir (filename e)" by auto
    let ?k = "hash_file h (content e)"
    from e keys have "?k \<in> fst ` set fh" by auto
    then obtain fs where m: "(?k, fs) \<in> set fh" by auto
    from dd_get_member [OF dist m, of "[]"] fls have fs: "fs = map (\<lambda>e. path_join dir (filename e)) (hash_group h listing ?k)"
      by simp
    from e have "e \<in> set (hash_group h listing ?k)" by (simp add: hash_group_def)
    with fs xe have "x \<in> set fs" by auto
    note xfs = this
    from t have "threshold n < of_nat (dd_get 0 ?k hc)" by (simp add: cnt)
    with m \<open>x \<in> set fs\<close> show "x \<in> ?L" unfolding L by (intro UN_I [of "(?k, fs)"]) simp_all
  qed
qed

lemma hash_loop_plain: "hash_loop plain_digest st rest = st @ rest"
proof (induction plain_digest st rest rule: hash_loop.induct)
  case (1 sha1 rest)
  show ?case
  proof (cases "take BUF_SIZE rest = []")
    case True
    then have "rest = []" by (auto simp: BUF_SIZE_def)
    then show ?thesis by (subst hash_loop.simps) simp
  next
    case False
    with 1 show ?thesis
      by (subst hash_loop.simps) (simp add: Let_def plain_digest_def)
  qed
qed

lemma hash_file_plain: "hash_file plain_digest data = map unat data"
  by (simp add: hash_file_def hash_loop_plain) (simp add: plain_digest_def)

lemma ten_slide_media_removed:
  "remove_repetitive_images plain_digest 10 media_dir ten_slide_media =
     map (\<lambda>n. py ''temp_pptx/ppt/media/image'' @ py n @ py ''.png'')
       [''1'', ''3'', ''4'', ''5'', ''7'', ''8'', ''9'', ''10'', ''11'']"
  by (simp add: remove_repetitive_images_def ten_slide_media_def image_file_def
        hash_file_plain threshold_def path_join_def media_dir_def py_def dd_get_def Let_def)

subsection \<open>The claims\<close>



text \<open>
  C5 as it is stated fails: with no slide and one picture in the media directory, the
  picture is removed.
\<close>

theorem remove_repetitive_images_zero_slides_counterexample:
  "remove_repetitive_images plain_digest 0 media_dir [image_file ''image1.png'' [1]]
     = [py ''temp_pptx/ppt/media/image1.png'']"
  by (simp add: remove_repetitive_images_def image_file_def hash_file_plain threshold_def
        path_join_def media_dir_def py_def dd_get_def Let_def)

text \<open>
  C5, as the code has it. With no slide the threshold is zero, every hash group has at
  least one member, and every regular file of the media directory is removed. Entries
  that are not regular files are the only ones left.
\<close>

theorem remove_repetitive_images_zero_slides:
  "set (remove_repetitive_images h 0 dir listing) =
     {path_join dir (filename e) | e. e \<in> set listing \<and> isfile e}"
proof -
  have "0 < length (hash_group h listing (hash_file h (content e)))"
    if "e \<in> set listing" "isfile e" for e
    using that by (auto simp: hash_group_def filter_empty_conv)
  then show ?thesis
    unfolding removed_paths by (auto simp: threshold_def)
qed

section \<open>Results about convert_pptx_to_pdf\<close>

text \<open>
  C7. For a path that exists the function returns normally whatever the call of the
  converter does: when that call raises, the exception is caught and the only trace is the
  line printed by the handler. (An exit status other than zero is not an exception; the
  function then prints the message of line 388.)
\<close>

theorem convert_pptx_to_pdf_never_raises:
  "os_path_exists env pptx_file \<Longrightarrow>
     fst (convert_pptx_to_pdf env pptx_file) = Inr ()
     \<and> (\<forall>error. subprocess_run env (libreoffice_cmd env pptx_file) = Inl error \<longrightarrow>
           snd (convert_pptx_to_pdf env pptx_file)
             = [Run (libreoffice_cmd env pptx_file),
                Print (py ''An error occurred during file conversion: '' @ error)])"
  by (simp add: convert_pptx_to_pdf_def split: sum.splits)

theorem convert_pptx_to_pdf_never_raises_witness:
  "os_path_exists no_libreoffice (py ''a.pptx'')
   \<and> subprocess_run no_libreoffice (libreoffice_cmd no_libreoffice (py ''a.pptx''))
       = Inl (py ''No such file or directory'')
   \<and> convert_pptx_to_pdf no_libreoffice (py ''a.pptx'')
       = (Inr (), [Run (libreoffice_cmd no_libreoffice (py ''a.pptx'')),
                   Print (py ''An error occurred during file conversion: ''
                          @ py ''No such file or directory'')])"
proof -
  have e: "os_path_exists no_libreoffice (py ''a.pptx'')"
    by (simp add: no_libreoffice_def)
  have r: "subprocess_run no_libreoffice (libreoffice_cmd no_libreoffice (py ''a.pptx''))
             = Inl (py ''No such file or directory'')"
    by (simp add: no_libreoffice_def)
  from convert_pptx_to_pdf_never_raises [OF e] r
  have "fst (convert_pptx_to_pdf no_libreoffice (py ''a.pptx'')) = Inr ()"
    and "snd (convert_pptx_to_pdf no_libreoffice (py ''a.pptx''))
           = [Run (libreoffice_cmd no_libreoffice (py ''a.pptx'')),
              Print (py ''An error occurred during file conversion: ''
                     @ py ''No such file or directory'')]"
    by blast+
  with e r show ?thesis by (simp add: prod_eq_iff)
qed

section \<open>Results about the repair loop\<close>

subsection \<open>One relationship document, one slide\<close>

lemma repair_relationships_again:
  "repair_relationships ex cs = Inr (ids, kept) \<Longrightarrow> repair_relationships ex kept = Inr ([], kept)"
  by (induction cs arbitrary: ids kept)
     (auto split: if_splits sum.splits option.splits prod.splits)

lemma repair_relationships_kept:
  "repair_relationships ex cs = Inr (ids, kept) \<Longrightarrow> r \<in> set kept \<Longrightarrow>
   tag r = Relationship_tag \<Longrightarrow> map_of (attrib r) (py ''Type'') = Some ty \<Longrightarrow>
   contains (py ''image'') ty \<Longrightarrow>
   \<exists>target. map_of (attrib r) (py ''Target'') = Some target \<and> ex (image_path target)"
  by (induction cs arbitrary: ids kept)
     (auto split: if_splits sum.splits option.splits prod.splits)

lemma remove_pics_none: "remove_pics ids pics = Inr u \<Longrightarrow> remove_pics [] pics = Inr ()"
  by (induction pics) (auto split: option.splits if_splits)


lemma repair_files_slides:
  "repair_files ex listing slides = Inr (written, slides') \<Longrightarrow> slides' = slides"
  by (induction listing arbitrary: slides written)
     (auto split: if_splits sum.splits option.splits prod.splits simp: fun_upd_idem)

lemma repair_files_again:
  "repair_files ex listing slides = Inr (written, slides') \<Longrightarrow>
   repair_files ex written slides' = Inr (written, slides')"
proof (induction listing arbitrary: slides written)
  case Nil
  then show ?case by simp
next
  case (Cons a listing)
  obtain rels_file parsed where a: "a = (rels_file, parsed)" by (cases a)
  show ?case
  proof (cases "endswith rels_file (py ''.rels'')")
    case False
    with Cons.prems obtain w where w: "repair_files ex listing slides = Inr (w, slides')"
      and wr: "written = (rels_file, parsed) # w"
      by (auto simp: a split: sum.splits prod.splits)
    from Cons.IH [OF w] False show ?thesis by (simp add: wr)
  next
    case True
    with Cons.prems obtain root_elem ids kept slide_root u w where
      p: "parsed = Inr root_elem"
      and rr: "repair_relationships ex (children root_elem) = Inr (ids, kept)"
      and sl: "slides (slide_file_of rels_file) = Inr slide_root"
      and rp: "remove_pics ids (findall_descendants pic_tag slide_root) = Inr u"
      and w: "repair_files ex listing (slides(slide_file_of rels_file := Inr slide_root)) = Inr (w, slides')"
      and wr: "written = (rels_file, Inr (Element (tag root_elem) (attrib root_elem) kept)) # w"
      by (auto simp: a split: sum.splits prod.splits)
    from sl have same: "slides(slide_file_of rels_file := Inr slide_root) = slides"
      by (simp add: fun_upd_idem)
    from repair_files_slides [OF w] same have s': "slides' = slides" by simp
    from Cons.IH [OF w] have again: "repair_files ex w slides = Inr (w, slides)"
      by (simp add: s')
    show ?thesis
      using True repair_relationships_again [OF rr] sl remove_pics_none [OF rp] again
      by (simp add: wr s' same)
  qed
qed


lemma repair_files_written:
  "repair_files ex listing slides = Inr (written, slides') \<Longrightarrow>
   (rels_file, Inr root_elem) \<in> set written \<Longrightarrow> endswith rels_file (py ''.rels'') \<Longrightarrow>
   \<exists>cs ids. repair_relationships ex cs = Inr (ids, children root_elem)"
proof (induction listing arbitrary: slides written)
  case Nil
  then show ?case by simp
next
  case (Cons a listing)
  obtain f parsed where a: "a = (f, parsed)" by (cases a)
  show ?case
  proof (cases "endswith f (py ''.rels'')")
    case False
    with Cons.prems obtain w where w: "repair_files ex listing slides = Inr (w, slides')"
      and wr: "written = (f, parsed) # w"
      by (auto simp: a split: sum.splits prod.splits)
    from Cons.prems(2,3) False have "(rels_file, Inr root_elem) \<in> set w"
      by (auto simp: wr)
    from Cons.IH [OF w this Cons.prems(3)] show ?thesis .
  next
    case True
    with Cons.prems obtain r0 ids kept slide_root w where
      rr: "repair_relationships ex (children r0) = Inr (ids, kept)"
      and w: "repair_files ex listing (slides(slide_file_of f := Inr slide_root)) = Inr (w, slides')"
      and wr: "written = (f, Inr (Element (tag r0) (attrib r0) kept)) # w"
      by (auto simp: a split: sum.splits prod.splits)
    from Cons.prems(2) consider "root_elem = Element (tag r0) (attrib r0) kept"
      | "(rels_file, Inr root_elem) \<in> set w"
      by (auto simp: wr)
    then show ?thesis
    proof cases
      case 1
      with rr show ?thesis by auto
    next
      case 2
      from Cons.IH [OF w 2 Cons.prems(3)] show ?thesis .
    qed
  qed
qed


subsection \<open>The loop as a whole, and clean_pptx\<close>

lemma reference_repair_targets:
  assumes "reference_repair pkg = Inr pkg'"
    and "rels_dir pkg' = Some listing"
    and "(rels_file, Inr root_elem) \<in> set listing"
    and "endswith rels_file (py ''.rels'')"
    and "r \<in> set (image_relationships root_elem)"
  shows "\<exists>target. map_of (attrib r) (py ''Target'') = Some target
                  \<and> exists_on_disk pkg' (image_path target)"
proof -
  from assms(1) obtain l0 slides' where l0: "rels_dir pkg = Some l0"
    and rf: "repair_files (exists_on_disk pkg) l0 (slides_dir pkg) = Inr (listing, slides')"
    and ex: "exists_on_disk pkg' = exists_on_disk pkg"
    using assms(2)
    by (auto simp: reference_repair_def split: option.splits sum.splits prod.splits)
  from repair_files_written [OF rf assms(3,4)] obtain cs ids where
    rr: "repair_relationships (exists_on_disk pkg) cs = Inr (ids, children root_elem)"
    by blast
  from assms(5) obtain ty where "r \<in> set (children root_elem)" "tag r = Relationship_tag"
    "map_of (attrib r) (py ''Type'') = Some ty" "contains (py ''image'') ty"
    by (auto simp: image_relationships_def split: option.splits)
  from repair_relationships_kept [OF rr this] show ?thesis by (simp add: ex)
qed


lemma reference_repair_again:
  "reference_repair pkg = Inr pkg' \<Longrightarrow> reference_repair pkg' = Inr pkg'"
  by (auto simp: reference_repair_def split: option.splits sum.splits prod.splits
           dest: repair_files_again)


lemma clean_pptx_repairs:
  assumes "clean_pptx h env pptx_path num_slides wd = Inr pkg'"
  obtains listing where "media wd = Some listing"
    and "reference_repair
           \<lparr>exists_on_disk =
              present wd (remove_repetitive_images h num_slides image_dir listing),
            rels_dir = rels_files wd, slides_dir = slide_files wd\<rparr> = Inr pkg'"
  using assms by (auto simp: clean_pptx_def split: if_splits option.splits)

subsection \<open>The example decks\<close>

lemma image_dir_media_dir: "image_dir = media_dir"
  by (simp add: image_dir_def media_dir_def path_join_def py_def)

lemma nine_copies_removed:
  "remove_repetitive_images plain_digest 10 media_dir ten_slide_media = nine_copies"
  by (simp add: ten_slide_media_removed nine_copies_def)

lemma one_picture_kept:
  "remove_repetitive_images plain_digest 10 media_dir [image_file ''image1.png'' [1]] = []"
  by (simp add: remove_repetitive_images_def image_file_def
        hash_file_plain threshold_def path_join_def media_dir_def py_def dd_get_def Let_def)

lemmas example_defs = one_slide_def relationship_elem_def relationships_doc_def pic_elem_def
  slide_doc_def image_type_def layout_type_def Relationship_tag_def pic_tag_def blip_tag_def
  embed_attr_def qname_def py_def image_path_def temp_dir_def path_join_def lstrip_slash_def
  slide_file_of_def endswith_def findall_descendants_def find_descendant_def
  cleaned_def everything_exists_def nine_copies_def image_file_def ten_slide_media_def

lemma faded_background_run:
  "clean_pptx plain_digest everything_exists (py ''deck.pptx'') 10 faded_background
     = Inr (cleaned faded_background nine_copies
              [relationship_elem ''rId1'' layout_type ''../slideLayouts/slideLayout1.xml'',
               relationship_elem ''rId2'' image_type ''../media/image2.png''])"
  unfolding clean_pptx_def
  by (simp add: faded_background_def one_slide_def image_dir_media_dir nine_copies_removed)
     (simp add: reference_repair_def example_defs image_dir_media_dir media_dir_def fun_upd_idem)

text \<open>
  The pruning deletes the background and the slide still shows it as a picture: the run
  ends at line 255 with \<open>AttributeError\<close>, after the relationship document was written.
\<close>

lemma lost_picture_run:
  "clean_pptx plain_digest everything_exists (py ''deck.pptx'') 10 lost_picture
     = Inl (AttributeError (py ''getparent''))"
  unfolding clean_pptx_def
  by (simp add: lost_picture_def one_slide_def image_dir_media_dir nine_copies_removed)
     (simp add: reference_repair_def example_defs image_dir_media_dir media_dir_def fun_upd_idem)

lemma images_outside_media_run:
  "clean_pptx plain_digest everything_exists (py ''deck.pptx'') 10 images_outside_media
     = Inr (cleaned images_outside_media []
              [relationship_elem ''rId1'' layout_type ''../slideLayouts/slideLayout1.xml'',
               relationship_elem ''rId2'' image_type ''../images/logo.png''])"
  unfolding clean_pptx_def
  by (simp add: images_outside_media_def one_slide_def image_dir_media_dir one_picture_kept)
     (simp add: reference_repair_def example_defs image_dir_media_dir media_dir_def fun_upd_idem)


lemma slide1_rels: "endswith (py ''slide1.xml.rels'') (py ''.rels'')"
  "slide_file_of (py ''slide1.xml.rels'') = py ''slide1.xml''"
  by (simp_all add: endswith_def slide_file_of_def py_def)

subsection \<open>The claims\<close>

text \<open>
  C1 as it is stated fails. The deck keeps the picture of its slide in \<open>ppt/images\<close>; the
  run raises nothing and leaves the image relationship in place, and the path that the
  relationship resolves to exists but is not in the media directory (where, for
  comparison, \<open>image1.png\<close> is).
\<close>

theorem clean_pptx_media_dir_counterexample:
  "clean_pptx plain_digest everything_exists (py ''deck.pptx'') 10 images_outside_media
     = Inr (cleaned images_outside_media []
              [relationship_elem ''rId1'' layout_type ''../slideLayouts/slideLayout1.xml'',
               relationship_elem ''rId2'' image_type ''../images/logo.png''])
   \<and> image_relationships (relationships_doc
         [relationship_elem ''rId1'' layout_type ''../slideLayouts/slideLayout1.xml'',
          relationship_elem ''rId2'' image_type ''../images/logo.png''])
       = [relationship_elem ''rId2'' image_type ''../images/logo.png'']
   \<and> image_path (py ''../images/logo.png'') = py ''temp_pptx/ppt/images/logo.png''
   \<and> exists_on_disk (cleaned images_outside_media []
         [relationship_elem ''rId1'' layout_type ''../slideLayouts/slideLayout1.xml'',
          relationship_elem ''rId2'' image_type ''../images/logo.png''])
         (py ''temp_pptx/ppt/images/logo.png'')
   \<and> \<not> in_media_dir (py ''temp_pptx/ppt/images/logo.png'')
   \<and> in_media_dir (py ''temp_pptx/ppt/media/image1.png'')"
proof -
  have "image_relationships (relationships_doc
         [relationship_elem ''rId1'' layout_type ''../slideLayouts/slideLayout1.xml'',
          relationship_elem ''rId2'' image_type ''../images/logo.png''])
       = [relationship_elem ''rId2'' image_type ''../images/logo.png'']"
    by (simp add: image_relationships_def example_defs)
  moreover have "image_path (py ''../images/logo.png'') = py ''temp_pptx/ppt/images/logo.png''"
    by (simp add: example_defs)
  moreover have "exists_on_disk (cleaned images_outside_media []
         [relationship_elem ''rId1'' layout_type ''../slideLayouts/slideLayout1.xml'',
          relationship_elem ''rId2'' image_type ''../images/logo.png''])
         (py ''temp_pptx/ppt/images/logo.png'')"
    by (simp add: cleaned_def images_outside_media_def one_slide_def py_def)
  moreover have "\<not> in_media_dir (py ''temp_pptx/ppt/images/logo.png'')"
    by (simp add: in_media_dir_def py_def)
  moreover have "in_media_dir (py ''temp_pptx/ppt/media/image1.png'')"
    by (simp add: in_media_dir_def py_def)
  ultimately show ?thesis using images_outside_media_run by blast
qed

text \<open>
  C1, as the code has it. After a run of \<open>clean_pptx\<close> that raised nothing, every image
  relationship left in a relationship document has a target, and the path that line 240
  computes from it exists on disk: the code asks \<open>os.path.exists\<close> of that path and
  nothing about the directory it lies in.
\<close>

theorem clean_pptx_image_targets_exist:
  assumes "clean_pptx h env pptx_path num_slides wd = Inr pkg'"
    and "rels_dir pkg' = Some listing"
    and "(rels_file, Inr root_elem) \<in> set listing"
    and "endswith rels_file (py ''.rels'')"
    and "r \<in> set (image_relationships root_elem)"
  shows "\<exists>target. map_of (attrib r) (py ''Target'') = Some target
                  \<and> exists_on_disk pkg' (image_path target)"
proof -
  from assms(1) obtain pkg where "reference_repair pkg = Inr pkg'"
    by (rule clean_pptx_repairs)
  from reference_repair_targets [OF this assms(2-5)] show ?thesis .
qed

theorem clean_pptx_image_targets_exist_witness:
  "clean_pptx plain_digest everything_exists (py ''deck.pptx'') 10 faded_background
     = Inr (cleaned faded_background nine_copies
              [relationship_elem ''rId1'' layout_type ''../slideLayouts/slideLayout1.xml'',
               relationship_elem ''rId2'' image_type ''../media/image2.png''])
   \<and> (\<exists>target. map_of (attrib (relationship_elem ''rId2'' image_type ''../media/image2.png''))
                     (py ''Target'') = Some target
               \<and> exists_on_disk
                     (cleaned faded_background nine_copies
                        [relationship_elem ''rId1'' layout_type
                           ''../slideLayouts/slideLayout1.xml'',
                         relationship_elem ''rId2'' image_type ''../media/image2.png''])
                     (image_path target))"
proof -
  let ?rs = "[relationship_elem ''rId1'' layout_type ''../slideLayouts/slideLayout1.xml'',
              relationship_elem ''rId2'' image_type ''../media/image2.png'']"
  have l: "rels_dir (cleaned faded_background nine_copies ?rs)
             = Some [(py ''slide1.xml.rels'', Inr (relationships_doc ?rs))]"
    by (simp add: cleaned_def)
  have m: "(py ''slide1.xml.rels'', Inr (relationships_doc ?rs))
             \<in> set [(py ''slide1.xml.rels'', Inr (relationships_doc ?rs))]"
    by simp
  have r: "relationship_elem ''rId2'' image_type ''../media/image2.png''
             \<in> set (image_relationships (relationships_doc ?rs))"
    by (simp add: image_relationships_def example_defs)
  from clean_pptx_image_targets_exist [OF faded_background_run l m slide1_rels(1) r]
    faded_background_run
  show ?thesis by simp
qed




text \<open>
  C3. The package that a run of \<open>clean_pptx\<close> without exception leaves is a fixed point of
  the repair loop: a second pass raises nothing and leaves every relationship document
  and every slide as the first left it, so it removes no relationship and no picture.
\<close>

theorem clean_pptx_repair_idempotent:
  "clean_pptx h env pptx_path num_slides wd = Inr pkg' \<Longrightarrow> reference_repair pkg' = Inr pkg'"
  by (erule clean_pptx_repairs) (rule reference_repair_again)

theorem clean_pptx_repair_idempotent_witness:
  "clean_pptx plain_digest everything_exists (py ''deck.pptx'') 10 faded_background
     = Inr (cleaned faded_background nine_copies
              [relationship_elem ''rId1'' layout_type ''../slideLayouts/slideLayout1.xml'',
               relationship_elem ''rId2'' image_type ''../media/image2.png''])
   \<and> reference_repair (cleaned faded_background nine_copies
              [relationship_elem ''rId1'' layout_type ''../slideLayouts/slideLayout1.xml'',
               relationship_elem ''rId2'' image_type ''../media/image2.png''])
       = Inr (cleaned faded_background nine_copies
              [relationship_elem ''rId1'' layout_type ''../slideLayouts/slideLayout1.xml'',
               relationship_elem ''rId2'' image_type ''../media/image2.png''])"
  using clean_pptx_repair_idempotent [OF faded_background_run] faded_background_run
  by simp

section \<open>Results about the style passes\<close>

subsection \<open>Loops that keep a property, establish one, or run to their end\<close>

lemma for_each_invariant:
  "(\<And>x s s'. x \<in> set xs \<Longrightarrow> Q s \<Longrightarrow> body x s = Inr s' \<Longrightarrow> Q s') \<Longrightarrow> Q st \<Longrightarrow>
   for_each body xs st = Inr st' \<Longrightarrow> Q st'"
proof (induction xs arbitrary: st)
  case Nil
  then show ?case by simp
next
  case (Cons x xs)
  from Cons.prems(3) obtain s1 where s1: "body x st = Inr s1" and rest: "for_each body xs s1 = Inr st'"
    by (auto split: sum.splits)
  from Cons.prems(1) [of x st s1] Cons.prems(2) s1 have q1: "Q s1" by simp
  show ?case
  proof (rule Cons.IH [OF _ q1 rest])
    fix y s s' assume "y \<in> set xs" and "Q s" and "body y s = Inr s'"
    then show "Q s'" using Cons.prems(1) [of y s s'] by simp
  qed
qed

lemma for_each_establish:
  "x0 \<in> set xs \<Longrightarrow> (\<And>s s'. body x0 s = Inr s' \<Longrightarrow> R s') \<Longrightarrow>
   (\<And>x s s'. R s \<Longrightarrow> body x s = Inr s' \<Longrightarrow> R s') \<Longrightarrow>
   for_each body xs st = Inr st' \<Longrightarrow> R st'"
proof (induction xs arbitrary: st)
  case Nil
  then show ?case by simp
next
  case (Cons x xs)
  from Cons.prems(4) obtain s1 where s1: "body x st = Inr s1" and rest: "for_each body xs s1 = Inr st'"
    by (auto split: sum.splits)
  show ?case
  proof (cases "x0 \<in> set xs")
    case True
    from Cons.IH [OF True Cons.prems(2) Cons.prems(3) rest] show ?thesis .
  next
    case False
    with Cons.prems(1) have "x = x0" by simp
    with s1 Cons.prems(2) have r1: "R s1" by simp
    show ?thesis
      by (rule for_each_invariant [where Q = R and body = body, OF _ r1 rest])
         (rule Cons.prems(3))
  qed
qed

lemma for_each_total:
  "(\<And>x s. x \<in> set xs \<Longrightarrow> \<exists>s'. body x s = Inr s') \<Longrightarrow> \<exists>st'. for_each body xs st = Inr st'"
proof (induction xs arbitrary: st)
  case Nil
  then show ?case by simp
next
  case (Cons x xs)
  from Cons.prems [of x st] obtain s1 where s1: "body x st = Inr s1" by auto
  from Cons.IH [of s1] Cons.prems obtain st' where "for_each body xs s1 = Inr st'" by auto
  with s1 show ?case by simp
qed

lemma for_paragraphs_invariant:
  "(\<And>st p st'. p \<in> set tf \<Longrightarrow> Q st \<Longrightarrow> body st p = Inr st' \<Longrightarrow> Q st') \<Longrightarrow> Q st \<Longrightarrow>
   for_paragraphs body st tf = Inr st' \<Longrightarrow> Q st'"
  unfolding for_paragraphs_def
  by (rule for_each_invariant [where Q = Q and body = "\<lambda>paragraph st. body st paragraph"])

lemma for_paragraphs_establish:
  "p0 \<in> set tf \<Longrightarrow> (\<And>st st'. body st p0 = Inr st' \<Longrightarrow> R st') \<Longrightarrow>
   (\<And>st p st'. R st \<Longrightarrow> body st p = Inr st' \<Longrightarrow> R st') \<Longrightarrow>
   for_paragraphs body st tf = Inr st' \<Longrightarrow> R st'"
  unfolding for_paragraphs_def
  by (rule for_each_establish [where R = R and body = "\<lambda>paragraph st. body st paragraph"])

lemma for_paragraphs_total:
  "(\<And>st p. \<exists>st'. body st p = Inr st') \<Longrightarrow> \<exists>st'. for_paragraphs body st tf = Inr st'"
  unfolding for_paragraphs_def by (rule for_each_total)

lemma for_cells_invariant:
  assumes step: "\<And>st p st'. p \<in> set (concat (concat rows)) \<Longrightarrow> Q st \<Longrightarrow> body st p = Inr st' \<Longrightarrow> Q st'"
    and "Q st" and "for_cells body st rows = Inr st'"
  shows "Q st'"
proof (rule for_each_invariant [where Q = Q, OF _ assms(2) assms(3) [unfolded for_cells_def]])
  fix row s s' assume row: "row \<in> set rows" and s: "Q s"
    and r: "for_each (\<lambda>cell st. for_paragraphs body st cell) row s = Inr s'"
  show "Q s'"
  proof (rule for_each_invariant [where Q = Q, OF _ s r])
    fix cell t t' assume cell: "cell \<in> set row" and t: "Q t" and c: "for_paragraphs body t cell = Inr t'"
    show "Q t'"
    proof (rule for_paragraphs_invariant [where Q = Q, OF _ t c])
      fix u p u' assume "p \<in> set cell" and "Q u" and "body u p = Inr u'"
      with row cell show "Q u'" by (intro step [of p u u']) auto
    qed
  qed
qed

lemma for_cells_establish:
  assumes "p0 \<in> set (concat (concat rows))"
    and est: "\<And>st st'. body st p0 = Inr st' \<Longrightarrow> R st'"
    and stable: "\<And>st p st'. R st \<Longrightarrow> body st p = Inr st' \<Longrightarrow> R st'"
    and run: "for_cells body st rows = Inr st'"
  shows "R st'"
proof -
  from assms(1) obtain row cell where row: "row \<in> set rows" and cell: "cell \<in> set row"
    and p0: "p0 \<in> set cell" by auto
  have inner: "R s'" if "R s" "for_paragraphs body s c = Inr s'" for s c s'
    by (rule for_paragraphs_invariant [where Q = R, OF _ that]) (rule stable)
  have mid: "R s'" if "R s" "for_each (\<lambda>cell st. for_paragraphs body st cell) r s = Inr s'"
    for s r s'
    by (rule for_each_invariant [where Q = R, OF _ that]) (rule inner)
  show ?thesis
  proof (rule for_each_establish [where R = R and ?x0.0 = row, OF row _ _ run [unfolded for_cells_def]])
    fix s s' assume r: "for_each (\<lambda>cell st. for_paragraphs body st cell) row s = Inr s'"
    show "R s'"
    proof (rule for_each_establish [where R = R and ?x0.0 = cell, OF cell _ _ r])
      fix t t' assume c: "for_paragraphs body t cell = Inr t'"
      show "R t'"
        by (rule for_paragraphs_establish [where R = R and body = body, OF p0 _ _ c])
           (blast intro: est stable)+
    next
      fix x t t' assume "R t" and "for_paragraphs body t x = Inr t'"
      then show "R t'" by (rule inner)
    qed
  next
    fix x s s' assume "R s" and "for_each (\<lambda>cell st. for_paragraphs body st cell) x s = Inr s'"
    then show "R s'" by (rule mid)
  qed
qed

lemma for_cells_total:
  assumes "\<And>st p. \<exists>st'. body st p = Inr st'"
  shows "\<exists>st'. for_cells body st rows = Inr st'"
  unfolding for_cells_def
  by (intro for_each_total for_paragraphs_total assms)


subsection \<open>The traversal\<close>

lemma other_shape_not_group: "shape_type (OtherShape k tf) \<noteq> Some 6"
  by (cases k) auto

lemma stack_paragraphs_Cons:
  "stack_paragraphs (s # stack) = set (shape_paragraphs s) \<union> stack_paragraphs stack"
  by (simp add: stack_paragraphs_def)

lemma stack_paragraphs_group:
  "stack_paragraphs (rev cs @ stack) = set (shape_paragraphs (GroupShape cs)) \<union> stack_paragraphs stack"
  by (auto simp: stack_paragraphs_def)

lemma walk_shapes_invariant:
  "(\<And>st p st'. p \<in> stack_paragraphs stack \<Longrightarrow> Q st \<Longrightarrow> body st p = Inr st' \<Longrightarrow> Q st') \<Longrightarrow>
   Q st \<Longrightarrow> walk_shapes body st stack = Inr st' \<Longrightarrow> Q st'"
proof (induction body st stack rule: walk_shapes.induct)
  case (1 body st)
  then show ?case by simp
next
  case (2 body st shape rest)
  have step: "Q s'" if "p \<in> stack_paragraphs (shape # rest)" "Q s" "body s p = Inr s'" for s p s'
    using that "2.prems"(1) by blast
  have step_rest: "Q s'" if "p \<in> stack_paragraphs rest" "Q s" "body s p = Inr s'" for s p s'
    using that by (intro step [of p s s']) (auto simp: stack_paragraphs_Cons)
  show ?case
  proof (cases shape)
    case (AutoShape tf)
    from "2.prems"(3) obtain s1 where s1: "for_paragraphs body st (text_frame shape) = Inr s1"
      and rest: "walk_shapes body s1 rest = Inr st'"
      by (auto simp: AutoShape split: sum.splits)
    have q1: "Q s1"
    proof (rule for_paragraphs_invariant [where Q = Q, OF _ "2.prems"(2) s1])
      fix s p s' assume "p \<in> set (text_frame shape)" "Q s" "body s p = Inr s'"
      then show "Q s'" by (intro step [of p s s']) (auto simp: AutoShape stack_paragraphs_Cons)
    qed
    show ?thesis
    proof (rule "2.IH"(1) [OF _ s1 _ q1 rest])
      show "has_text_frame shape" by (simp add: AutoShape)
    qed (rule step_rest)
  next
    case (TableFrame rows)
    from "2.prems"(3) obtain s1 where s1: "for_cells body st (table_rows shape) = Inr s1"
      and rest: "walk_shapes body s1 rest = Inr st'"
      by (auto simp: TableFrame split: sum.splits)
    have q1: "Q s1"
    proof (rule for_cells_invariant [where Q = Q, OF _ "2.prems"(2) s1])
      fix s p s' assume "p \<in> set (concat (concat (table_rows shape)))" "Q s" "body s p = Inr s'"
      then show "Q s'" by (intro step [of p s s']) (auto simp: TableFrame stack_paragraphs_Cons)
    qed
    show ?thesis
    proof (rule "2.IH"(2) [OF _ _ s1 _ q1 rest])
      show "\<not> has_text_frame shape" "has_table shape" by (simp_all add: TableFrame)
    qed (rule step_rest)
  next
    case (GroupShape cs)
    from "2.prems"(3) have run: "walk_shapes body st (rev (shapes shape) @ rest) = Inr st'"
      by (simp add: GroupShape)
    show ?thesis
    proof (rule "2.IH"(3) [OF _ _ _ _ "2.prems"(2) run])
      show "\<not> has_text_frame shape" "\<not> has_table shape" "shape_type shape = Some 6"
        by (simp_all add: GroupShape)
    next
      fix s p s' assume "p \<in> stack_paragraphs (rev (shapes shape) @ rest)" "Q s" "body s p = Inr s'"
      then show "Q s'"
        by (intro step [of p s s'])
           (auto simp: GroupShape stack_paragraphs_Cons stack_paragraphs_group)
    qed
  next
    case (OtherShape k tf)
    from "2.prems"(3) have run: "walk_shapes body st rest = Inr st'"
      by (simp add: OtherShape other_shape_not_group)
    show ?thesis
    proof (rule "2.IH"(4) [OF _ _ _ _ "2.prems"(2) run])
      show "\<not> has_text_frame shape" "\<not> has_table shape" "shape_type shape \<noteq> Some 6"
        by (simp_all add: OtherShape other_shape_not_group)
    qed (rule step_rest)
  qed
qed

lemma walk_shapes_establish:
  "p0 \<in> stack_paragraphs stack \<Longrightarrow> (\<And>st st'. body st p0 = Inr st' \<Longrightarrow> R st') \<Longrightarrow>
   (\<And>st p st'. R st \<Longrightarrow> body st p = Inr st' \<Longrightarrow> R st') \<Longrightarrow>
   walk_shapes body st stack = Inr st' \<Longrightarrow> R st'"
proof (induction body st stack rule: walk_shapes.induct)
  case (1 body st)
  then show ?case by (simp add: stack_paragraphs_def)
next
  case (2 body st shape rest)
  note est = "2.prems"(2) and stable = "2.prems"(3)
  have keep: "R s'" if "R s" "walk_shapes body s stack = Inr s'" for s stack s'
    by (rule walk_shapes_invariant [where Q = R, OF _ that]) (rule stable)
  show ?case
  proof (cases shape)
    case (AutoShape tf)
    from "2.prems"(4) obtain s1 where s1: "for_paragraphs body st (text_frame shape) = Inr s1"
      and rest: "walk_shapes body s1 rest = Inr st'"
      by (auto simp: AutoShape split: sum.splits)
    have tf: "has_text_frame shape" by (simp add: AutoShape)
    show ?thesis
    proof (cases "p0 \<in> set tf")
      case True
      then have "p0 \<in> set (text_frame shape)" by (simp add: AutoShape)
      then have "R s1"
        by (rule for_paragraphs_establish [where R = R and body = body, OF _ _ _ s1])
           (blast intro: est stable)+
      then show ?thesis using rest by (rule keep)
    next
      case False
      with "2.prems"(1) have "p0 \<in> stack_paragraphs rest"
        by (simp add: AutoShape stack_paragraphs_Cons)
      then show ?thesis
        by (rule "2.IH"(1) [OF tf s1 _ _ _ rest]) (blast intro: est stable)+
    qed
  next
    case (TableFrame rows)
    from "2.prems"(4) obtain s1 where s1: "for_cells body st (table_rows shape) = Inr s1"
      and rest: "walk_shapes body s1 rest = Inr st'"
      by (auto simp: TableFrame split: sum.splits)
    have k: "\<not> has_text_frame shape" "has_table shape" by (simp_all add: TableFrame)
    show ?thesis
    proof (cases "p0 \<in> set (concat (concat rows))")
      case True
      then have "p0 \<in> set (concat (concat (table_rows shape)))" by (simp add: TableFrame)
      then have "R s1"
        by (rule for_cells_establish [where R = R and body = body, OF _ _ _ s1])
           (blast intro: est stable)+
      then show ?thesis using rest by (rule keep)
    next
      case False
      with "2.prems"(1) have "p0 \<in> stack_paragraphs rest"
        by (simp add: TableFrame stack_paragraphs_Cons)
      then show ?thesis
        by (rule "2.IH"(2) [OF k s1 _ _ _ rest]) (blast intro: est stable)+
    qed
  next
    case (GroupShape cs)
    from "2.prems"(4) have run: "walk_shapes body st (rev (shapes shape) @ rest) = Inr st'"
      by (simp add: GroupShape)
    have k: "\<not> has_text_frame shape" "\<not> has_table shape" "shape_type shape = Some 6"
      by (simp_all add: GroupShape)
    from "2.prems"(1) have "p0 \<in> stack_paragraphs (rev (shapes shape) @ rest)"
      by (simp add: GroupShape stack_paragraphs_Cons stack_paragraphs_group)
    then show ?thesis
      by (rule "2.IH"(3) [OF k _ _ _ run]) (blast intro: est stable)+
  next
    case (OtherShape k tf)
    from "2.prems"(4) have run: "walk_shapes body st rest = Inr st'"
      by (simp add: OtherShape other_shape_not_group)
    have k: "\<not> has_text_frame shape" "\<not> has_table shape" "shape_type shape \<noteq> Some 6"
      by (simp_all add: OtherShape other_shape_not_group)
    from "2.prems"(1) have "p0 \<in> stack_paragraphs rest"
      by (simp add: OtherShape stack_paragraphs_Cons)
    then show ?thesis
      by (rule "2.IH"(4) [OF k _ _ _ run]) (blast intro: est stable)+
  qed
qed

lemma walk_shapes_total:
  "(\<And>st p. \<exists>st'. body st p = Inr st') \<Longrightarrow> \<exists>st'. walk_shapes body st stack = Inr st'"
proof (induction body st stack rule: walk_shapes.induct)
  case (1 body st)
  then show ?case by simp
next
  case (2 body st shape rest)
  note total = "2.prems"
  show ?case
  proof (cases shape)
    case (AutoShape tf)
    from for_paragraphs_total [of body st "text_frame shape"] total
    obtain s1 where s1: "for_paragraphs body st (text_frame shape) = Inr s1" by blast
    have "\<exists>st'. walk_shapes body s1 rest = Inr st'"
      by (rule "2.IH"(1) [OF _ s1]) (simp_all add: AutoShape total)
    with s1 show ?thesis by (simp add: AutoShape)
  next
    case (TableFrame rows)
    from for_cells_total [of body st "table_rows shape"] total
    obtain s1 where s1: "for_cells body st (table_rows shape) = Inr s1" by blast
    have "\<exists>st'. walk_shapes body s1 rest = Inr st'"
      by (rule "2.IH"(2) [OF _ _ s1]) (simp_all add: TableFrame total)
    with s1 show ?thesis by (simp add: TableFrame)
  next
    case (GroupShape cs)
    have "\<exists>st'. walk_shapes body st (rev (shapes shape) @ rest) = Inr st'"
      by (rule "2.IH"(3)) (simp_all add: GroupShape total)
    then show ?thesis by (simp add: GroupShape)
  next
    case (OtherShape k tf)
    have "\<exists>st'. walk_shapes body st rest = Inr st'"
      by (rule "2.IH"(4)) (simp_all add: OtherShape other_shape_not_group total)
    then show ?thesis by (simp add: OtherShape other_shape_not_group)
  qed
qed

lemma text_paragraphs_alt: "text_paragraphs prs = (\<Union>slide \<in> set prs. stack_paragraphs (rev slide))"
  by (simp add: text_paragraphs_def stack_paragraphs_def)

lemma for_slides_invariant:
  assumes step: "\<And>st p st'. p \<in> text_paragraphs prs \<Longrightarrow> Q st \<Longrightarrow> body st p = Inr st' \<Longrightarrow> Q st'"
    and q: "Q st" and run: "for_slides body prs st = Inr st'"
  shows "Q st'"
proof (rule for_each_invariant [where Q = Q, OF _ q run [unfolded for_slides_def]])
  fix slide s s' assume sl: "slide \<in> set prs" and s: "Q s"
    and w: "walk_shapes body s (rev slide) = Inr s'"
  show "Q s'"
  proof (rule walk_shapes_invariant [where Q = Q, OF _ s w])
    fix t p t' assume "p \<in> stack_paragraphs (rev slide)" and "Q t" and "body t p = Inr t'"
    with sl show "Q t'" by (intro step [of p t t']) (auto simp: text_paragraphs_alt)
  qed
qed

lemma for_slides_establish:
  assumes "p0 \<in> text_paragraphs prs"
    and est: "\<And>st st'. body st p0 = Inr st' \<Longrightarrow> R st'"
    and stable: "\<And>st p st'. R st \<Longrightarrow> body st p = Inr st' \<Longrightarrow> R st'"
    and run: "for_slides body prs st = Inr st'"
  shows "R st'"
proof -
  from assms(1) obtain slide where sl: "slide \<in> set prs" and p0: "p0 \<in> stack_paragraphs (rev slide)"
    by (auto simp: text_paragraphs_alt)
  show ?thesis
  proof (rule for_each_establish [where R = R and ?x0.0 = slide, OF sl _ _ run [unfolded for_slides_def]])
    fix s s' assume w: "walk_shapes body s (rev slide) = Inr s'"
    show "R s'"
      by (rule walk_shapes_establish [where R = R and body = body, OF p0 _ _ w])
         (blast intro: est stable)+
  next
    fix x s s' assume s: "R s" and w: "walk_shapes body s (rev x) = Inr s'"
    show "R s'"
      by (rule walk_shapes_invariant [where Q = R, OF _ s w]) (rule stable)
  qed
qed

lemma for_slides_total:
  assumes "\<And>st p. \<exists>st'. body st p = Inr st'"
  shows "\<exists>st'. for_slides body prs st = Inr st'"
  unfolding for_slides_def
  by (intro for_each_total walk_shapes_total assms)


subsection \<open>The font pass\<close>

lemma emu_centipoints: "points * 12700 div 127 = points * (100 :: int)"
proof -
  have "points * 12700 = points * 100 * 127" by simp
  then show ?thesis by (simp del: mult.assoc mult.commute)
qed

lemma style_run_Inr:
  assumes "style_run font_name font_size spacing_size change st r = Inr st'"
  shows "line_spacings st' = line_spacings st"
    and "a \<noteq> r \<Longrightarrow> fonts st' a = fonts st a"
    and "f_space (fonts st' a) = f_space (fonts st a)"
    and "\<not> change \<Longrightarrow> f_size (fonts st' a) = f_size (fonts st a)"
    and "f_name (fonts st' r) = Some font_name \<and> f_italic (fonts st' r) = Some False
         \<and> f_color_rgb (fonts st' r) = Some (0, 0, 0)
         \<and> (change \<longrightarrow> f_size (fonts st' r) = Some (Pt font_size))"
  using assms
  by (auto simp: style_run_def set_name_def set_space_def set_italic_def set_color_rgb_def
        set_size_def Let_def Pt_def emu_centipoints split: if_splits)

lemma style_run_total:
  assumes "\<not> has_surrogate font_name" and "xml_compatible font_name"
    and "change \<longrightarrow> 1 \<le> font_size \<and> font_size \<le> 4000"
  shows "\<exists>st'. style_run font_name font_size spacing_size change st r = Inr st'"
  using assms
  by (auto simp: style_run_def set_name_def set_space_def set_italic_def set_color_rgb_def
        set_size_def Let_def Pt_def emu_centipoints)

lemma style_paragraph_invariant:
  "(\<And>st r st'. r \<in> set (runs p) \<Longrightarrow> Q st \<Longrightarrow>
       style_run font_name font_size spacing_size change st r = Inr st' \<Longrightarrow> Q st') \<Longrightarrow>
   Q st \<Longrightarrow> style_paragraph font_name font_size spacing_size change st p = Inr st' \<Longrightarrow> Q st'"
  unfolding style_paragraph_def
  by (rule for_each_invariant
        [where Q = Q
           and body = "\<lambda>run st. style_run font_name font_size spacing_size change st run"])

lemma font_pass_frame:
  assumes "a \<notin> text_runs prs"
    and "for_slides (style_paragraph font_name font_size spacing_size change) prs st = Inr st'"
  shows "fonts st' a = fonts st a"
proof (rule for_slides_invariant [where Q = "\<lambda>s. fonts s a = fonts st a", OF _ _ assms(2)])
  fix s :: store and p s'
  assume p: "p \<in> text_paragraphs prs" and s: "fonts s a = fonts st a"
    and run: "style_paragraph font_name font_size spacing_size change s p = Inr s'"
  from assms(1) p have na: "a \<notin> set (runs p)" by (auto simp: text_runs_def)
  show "fonts s' a = fonts st a"
  proof (rule style_paragraph_invariant [where Q = "\<lambda>s. fonts s a = fonts st a", OF _ s run])
    fix t :: store and r t'
    assume "r \<in> set (runs p)" and "fonts t a = fonts st a"
      and "style_run font_name font_size spacing_size change t r = Inr t'"
    with na style_run_Inr(2) [of font_name font_size spacing_size change t r t' a]
    show "fonts t' a = fonts st a" by auto
  qed
qed simp

lemma font_pass_keeps:
  assumes keep: "\<And>t r t'. Q t \<Longrightarrow>
      style_run font_name font_size spacing_size change t r = Inr t' \<Longrightarrow> Q t'"
    and "Q st"
    and "for_slides (style_paragraph font_name font_size spacing_size change) prs st = Inr st'"
  shows "Q st'"
proof (rule for_slides_invariant [where Q = Q, OF _ assms(2) assms(3)])
  fix s p s'
  assume s: "Q s" and run: "style_paragraph font_name font_size spacing_size change s p = Inr s'"
  show "Q s'"
    by (rule style_paragraph_invariant [where Q = Q, OF _ s run]) (rule keep)
qed

lemma font_pass_line_spacings:
  assumes "for_slides (style_paragraph font_name font_size spacing_size change) prs st = Inr st'"
  shows "line_spacings st' = line_spacings st"
proof (rule font_pass_keeps [where Q = "\<lambda>s. line_spacings s = line_spacings st", OF _ _ assms])
  fix t :: store and r t'
  assume "line_spacings t = line_spacings st"
    and "style_run font_name font_size spacing_size change t r = Inr t'"
  then show "line_spacings t' = line_spacings st" by (simp add: style_run_Inr(1))
qed simp

lemma font_pass_space_kept:
  assumes "for_slides (style_paragraph font_name font_size spacing_size change) prs st = Inr st'"
  shows "f_space (fonts st' a) = f_space (fonts st a)"
proof (rule font_pass_keeps
         [where Q = "\<lambda>s. f_space (fonts s a) = f_space (fonts st a)", OF _ _ assms])
  fix t :: store and r t'
  assume "f_space (fonts t a) = f_space (fonts st a)"
    and "style_run font_name font_size spacing_size change t r = Inr t'"
  then show "f_space (fonts t' a) = f_space (fonts st a)" by (simp add: style_run_Inr(3))
qed simp

lemma font_pass_size_kept:
  assumes "for_slides (style_paragraph font_name font_size spacing_size False) prs st = Inr st'"
  shows "f_size (fonts st' a) = f_size (fonts st a)"
proof (rule font_pass_keeps
         [where Q = "\<lambda>s. f_size (fonts s a) = f_size (fonts st a)", OF _ _ assms])
  fix t :: store and r t'
  assume "f_size (fonts t a) = f_size (fonts st a)"
    and "style_run font_name font_size spacing_size False t r = Inr t'"
  then show "f_size (fonts t' a) = f_size (fonts st a)" by (simp add: style_run_Inr(4))
qed simp

lemma font_pass_styles:
  assumes "a \<in> text_runs prs"
    and run: "for_slides (style_paragraph font_name font_size spacing_size change) prs st = Inr st'"
  shows "f_name (fonts st' a) = Some font_name \<and> f_italic (fonts st' a) = Some False
         \<and> f_color_rgb (fonts st' a) = Some (0, 0, 0)
         \<and> (change \<longrightarrow> f_size (fonts st' a) = Some (Pt font_size))"
proof -
  let ?P = "\<lambda>s. f_name (fonts s a) = Some font_name \<and> f_italic (fonts s a) = Some False
         \<and> f_color_rgb (fonts s a) = Some (0, 0, 0)
         \<and> (change \<longrightarrow> f_size (fonts s a) = Some (Pt font_size))"
  from assms(1) obtain p0 where p0: "p0 \<in> text_paragraphs prs" and a: "a \<in> set (runs p0)"
    by (auto simp: text_runs_def)
  have run_stable: "?P t'"
    if "?P t" "style_run font_name font_size spacing_size change t r = Inr t'"
    for t :: store and r t'
  proof (cases "r = a")
    case True
    with style_run_Inr(5) [OF that(2)] show ?thesis by simp
  next
    case False
    with style_run_Inr(2) [OF that(2), of a] that(1) show ?thesis by simp
  qed
  have stable: "?P s'"
    if "?P s" "style_paragraph font_name font_size spacing_size change s p = Inr s'"
    for s :: store and p s'
    by (rule style_paragraph_invariant [where Q = ?P, OF _ that]) (rule run_stable)
  have est: "?P s'"
    if "style_paragraph font_name font_size spacing_size change s p0 = Inr s'"
    for s :: store and s'
  proof (rule for_each_establish
           [where R = ?P and ?x0.0 = a
              and body = "\<lambda>run st. style_run font_name font_size spacing_size change st run",
            OF a _ _ that [unfolded style_paragraph_def]])
    fix t :: store and t'
    assume "style_run font_name font_size spacing_size change t a = Inr t'"
    from style_run_Inr(5) [OF this] show "?P t'" .
  next
    fix r and t :: store and t'
    assume "?P t" and "style_run font_name font_size spacing_size change t r = Inr t'"
    then show "?P t'" by (rule run_stable)
  qed
  show ?thesis
  proof (rule for_slides_establish [where R = ?P, OF p0 _ _ run])
    fix s :: store and s'
    assume "style_paragraph font_name font_size spacing_size change s p0 = Inr s'"
    then show "?P s'" by (rule est)
  next
    fix s :: store and p s'
    assume "?P s" and "style_paragraph font_name font_size spacing_size change s p = Inr s'"
    then show "?P s'" by (rule stable)
  qed
qed

lemma font_pass_total:
  assumes "\<not> has_surrogate font_name" and "xml_compatible font_name"
    and "change \<longrightarrow> 1 \<le> font_size \<and> font_size \<le> 4000"
  shows "\<exists>st'. for_slides (style_paragraph font_name font_size spacing_size change) prs st = Inr st'"
proof (rule for_slides_total)
  fix s p
  show "\<exists>s'. style_paragraph font_name font_size spacing_size change s p = Inr s'"
    unfolding style_paragraph_def
    by (rule for_each_total) (rule style_run_total [OF assms])
qed

subsection \<open>The line-spacing pass\<close>

lemma space_paragraph_Inr:
  assumes "space_paragraph v st p = Inr st'"
  shows "fonts st' = fonts st"
    and "b \<noteq> para_addr p \<Longrightarrow> line_spacings st' b = line_spacings st b"
    and "line_spacings st' (para_addr p) = Some (SpcPct (spc_pct v))"
  using assms
  by (auto simp: space_paragraph_def set_line_spacing_def split: if_splits)

lemma spacing_pass_fonts:
  assumes "for_slides (space_paragraph v) prs st = Inr st'"
  shows "fonts st' = fonts st"
proof (rule for_slides_invariant [where Q = "\<lambda>s. fonts s = fonts st", OF _ _ assms])
  fix s :: store and p s'
  assume "fonts s = fonts st" and "space_paragraph v s p = Inr s'"
  then show "fonts s' = fonts st" by (simp add: space_paragraph_Inr(1))
qed simp

lemma spacing_pass_frame:
  assumes "b \<notin> para_addr ` text_paragraphs prs"
    and "for_slides (space_paragraph v) prs st = Inr st'"
  shows "line_spacings st' b = line_spacings st b"
proof (rule for_slides_invariant
         [where Q = "\<lambda>s. line_spacings s b = line_spacings st b", OF _ _ assms(2)])
  fix s :: store and p s'
  assume p: "p \<in> text_paragraphs prs" and s: "line_spacings s b = line_spacings st b"
    and run: "space_paragraph v s p = Inr s'"
  from assms(1) p have "b \<noteq> para_addr p" by auto
  with space_paragraph_Inr(2) [OF run] s show "line_spacings s' b = line_spacings st b" by simp
qed simp

lemma spacing_pass_sets:
  assumes "p0 \<in> text_paragraphs prs" and run: "for_slides (space_paragraph v) prs st = Inr st'"
  shows "line_spacings st' (para_addr p0) = Some (SpcPct (spc_pct v))"
proof (rule for_slides_establish
         [where R = "\<lambda>s. line_spacings s (para_addr p0) = Some (SpcPct (spc_pct v))",
          OF assms(1) _ _ run])
  fix s :: store and s' assume "space_paragraph v s p0 = Inr s'"
  then show "line_spacings s' (para_addr p0) = Some (SpcPct (spc_pct v))"
    by (rule space_paragraph_Inr(3))
next
  fix s :: store and p s'
  assume s: "line_spacings s (para_addr p0) = Some (SpcPct (spc_pct v))"
    and r: "space_paragraph v s p = Inr s'"
  show "line_spacings s' (para_addr p0) = Some (SpcPct (spc_pct v))"
  proof (cases "para_addr p0 = para_addr p")
    case True
    with space_paragraph_Inr(3) [OF r] show ?thesis by simp
  next
    case False
    with space_paragraph_Inr(2) [OF r] s show ?thesis by simp
  qed
qed

lemma spacing_pass_total:
  assumes "0 \<le> v" and "v \<le> 132"
  shows "\<exists>st'. for_slides (space_paragraph v) prs st = Inr st'"
  by (rule for_slides_total) (use assms in \<open>simp add: space_paragraph_def set_line_spacing_def\<close>)

lemma spacing_pass_refuses:
  assumes "v < 0 \<or> 132 < v" and "for_slides (space_paragraph v) prs st = Inr st'"
  shows "text_paragraphs prs = {}"
proof (rule ccontr)
  assume "text_paragraphs prs \<noteq> {}"
  then obtain p0 where p0: "p0 \<in> text_paragraphs prs" by auto
  have "False"
  proof (rule for_slides_establish [where R = "\<lambda>s. False", OF p0 _ _ assms(2)])
    fix s s' assume "space_paragraph v s p0 = Inr s'"
    with assms(1) show False by (auto simp: space_paragraph_def set_line_spacing_def)
  qed
  then show False .
qed

lemma ask_answer: "ask stdin = Inr answer \<Longrightarrow> answer = py ''yes'' \<or> answer = py ''no''"
  by (induction stdin) (auto split: if_splits)


lemma font_pass_refuses:
  assumes "font_size < 1 \<or> 4000 < font_size" and "a \<in> text_runs prs"
  shows "for_slides (style_paragraph font_name font_size spacing_size True) prs st \<noteq> Inr st'"
proof
  assume run: "for_slides (style_paragraph font_name font_size spacing_size True) prs st = Inr st'"
  from assms(2) obtain p0 where p0: "p0 \<in> text_paragraphs prs" and a: "a \<in> set (runs p0)"
    by (auto simp: text_runs_def)
  have no_run: "False" if "style_run font_name font_size spacing_size True t r = Inr t'"
    for t r t'
    using that assms(1)
    by (auto simp: style_run_def set_name_def set_space_def set_italic_def set_color_rgb_def
          set_size_def Let_def Pt_def emu_centipoints split: if_splits)
  show False
  proof (rule for_slides_establish [where R = "\<lambda>s. False", OF p0 _ _ run])
    fix s s' assume "style_paragraph font_name font_size spacing_size True s p0 = Inr s'"
    then have r: "for_each (\<lambda>run st. style_run font_name font_size spacing_size True st run)
                    (runs p0) s = Inr s'"
      by (simp add: style_paragraph_def)
    show False
    proof (rule for_each_establish
            [where R = "\<lambda>s. False" and ?x0.0 = a
               and body = "\<lambda>run st. style_run font_name font_size spacing_size True st run",
             OF a _ _ r])
      fix t t' assume "style_run font_name font_size spacing_size True t a = Inr t'"
      then show False by (rule no_run)
    qed
  qed
qed

subsection \<open>The two functions\<close>

lemma modify_presentation_font_Inr:
  assumes "modify_presentation_font stdin prs font_name font_size spacing_size st = Inr st'"
  shows "\<exists>answer. ask stdin = Inr answer
           \<and> for_slides (style_paragraph font_name font_size spacing_size (answer = py ''yes''))
                prs st = Inr st'"
  using assms by (auto simp: modify_presentation_font_def Let_def split: sum.splits)

lemma modify_presentation_font_returns:
  assumes "ask stdin = Inr answer" and "\<not> has_surrogate font_name" and "xml_compatible font_name"
    and "answer = py ''yes'' \<longrightarrow> 1 \<le> font_size \<and> font_size \<le> 4000"
  shows "\<exists>st'. modify_presentation_font stdin prs font_name font_size spacing_size st = Inr st'"
  using font_pass_total [OF assms(2) assms(3) assms(4), of spacing_size prs st]
  by (simp add: modify_presentation_font_def assms(1))

lemma modify_presentation_font_effect:
  assumes "modify_presentation_font stdin prs font_name font_size spacing_size st = Inr st'"
  shows "a \<notin> text_runs prs \<Longrightarrow> fonts st' a = fonts st a"
    and "line_spacings st' = line_spacings st"
    and "f_space (fonts st' a) = f_space (fonts st a)"
    and "a \<in> text_runs prs \<Longrightarrow>
           f_name (fonts st' a) = Some font_name \<and> f_italic (fonts st' a) = Some False
           \<and> f_color_rgb (fonts st' a) = Some (0, 0, 0)"
    and "a \<in> text_runs prs \<Longrightarrow>
           f_size (fonts st' a)
             = (if ask stdin = Inr (py ''yes'') then Some (Pt font_size) else f_size (fonts st a))"
proof -
  from modify_presentation_font_Inr [OF assms] obtain answer
    where answer: "ask stdin = Inr answer"
      and run: "for_slides (style_paragraph font_name font_size spacing_size (answer = py ''yes''))
                  prs st = Inr st'"
    by blast
  show "a \<notin> text_runs prs \<Longrightarrow> fonts st' a = fonts st a"
    using run by (rule font_pass_frame [rotated])
  show "line_spacings st' = line_spacings st"
    using run by (rule font_pass_line_spacings)
  show "f_space (fonts st' a) = f_space (fonts st a)"
    using run by (rule font_pass_space_kept)
  show "a \<in> text_runs prs \<Longrightarrow>
           f_name (fonts st' a) = Some font_name \<and> f_italic (fonts st' a) = Some False
           \<and> f_color_rgb (fonts st' a) = Some (0, 0, 0)"
    using font_pass_styles [OF _ run, of a] by simp
  show "f_size (fonts st' a)
          = (if ask stdin = Inr (py ''yes'') then Some (Pt font_size) else f_size (fonts st a))"
    if a: "a \<in> text_runs prs"
  proof (cases "answer = py ''yes''")
    case True
    with font_pass_styles [OF a run] answer show ?thesis by simp
  next
    case False
    with run have "for_slides (style_paragraph font_name font_size spacing_size False) prs st
                     = Inr st'" by simp
    from font_pass_size_kept [OF this, of a] False answer show ?thesis by simp
  qed
qed

lemma modify_presentation_font_raises:
  assumes "ask stdin = Inr (py ''yes'')" and "font_size < 1 \<or> 4000 < font_size"
    and "text_runs prs \<noteq> {}"
  shows "\<exists>e. modify_presentation_font stdin prs font_name font_size spacing_size st = Inl e"
proof -
  from assms(3) obtain a where a: "a \<in> text_runs prs" by auto
  have "modify_presentation_font stdin prs font_name font_size spacing_size st \<noteq> Inr st'" for st'
    using font_pass_refuses [OF assms(2) a, of font_name spacing_size st st']
    by (simp add: modify_presentation_font_def assms(1))
  then show ?thesis
    by (cases "modify_presentation_font stdin prs font_name font_size spacing_size st") auto
qed

lemma modify_presentation_font_look:
  assumes "modify_presentation_font stdin prs font_name font_size spacing_size st = Inr st'"
    and "apart prs s" and "p \<in> set (shape_objects s)"
  shows "look st' p = look st p"
proof -
  from assms(2,3) have r: "r \<notin> text_runs prs" if "r \<in> set (runs p)" for r
    using that by (auto simp: apart_def list_all_iff)
  show ?thesis
    by (simp add: look_def modify_presentation_font_effect(1,2) [OF assms(1)] r)
qed

lemma modify_presentation_spacing_effect:
  assumes "modify_presentation_spacing prs v st = Inr st'"
  shows "b \<notin> para_addr ` text_paragraphs prs \<Longrightarrow> line_spacings st' b = line_spacings st b"
    and "fonts st' = fonts st"
    and "p \<in> text_paragraphs prs \<Longrightarrow>
           line_spacings st' (para_addr p) = Some (SpcPct (spc_pct v))"
  using assms spacing_pass_frame [of b prs v st st'] spacing_pass_fonts [of v prs st st']
    spacing_pass_sets [of p prs v st st']
  by (simp_all add: modify_presentation_spacing_def)

lemma modify_presentation_spacing_look:
  assumes "modify_presentation_spacing prs v st = Inr st'"
    and "apart prs s" and "p \<in> set (shape_objects s)"
  shows "look st' p = look st p"
proof -
  from assms(2,3) have "para_addr p \<notin> para_addr ` text_paragraphs prs"
    by (auto simp: apart_def list_all_iff)
  then show ?thesis
    by (simp add: look_def modify_presentation_spacing_effect(1,2) [OF assms(1)])
qed

lemma modify_presentation_spacing_returns:
  assumes "0 \<le> v" and "v \<le> 132"
  shows "\<exists>st'. modify_presentation_spacing prs v st = Inr st'"
  using spacing_pass_total [OF assms] by (simp add: modify_presentation_spacing_def)

subsection \<open>The rounding of the line spacing\<close>

lemma bit_length_eqI: "n < 2 ^ k \<Longrightarrow> 2 ^ k \<le> 2 * n \<Longrightarrow> bit_length n = k"
proof (induction k arbitrary: n)
  case 0
  then show ?case by simp
next
  case (Suc k)
  show ?case
  proof (cases "k = 0")
    case True
    with Suc.prems have "n = Suc 0" by simp
    then show ?thesis
      by (simp add: True bit_length.simps [of "Suc 0"] bit_length.simps [of 0])
  next
    case False
    from Suc.prems have n: "n \<noteq> 0" by auto
    from Suc.prems have a: "n div 2 < 2 ^ k" by simp
    from False obtain j where k: "k = Suc j" by (cases k) auto
    from Suc.prems(2) have "2 ^ k \<le> n" by simp
    then have "2 * 2 ^ j \<le> n" by (simp add: k)
    then have "2 ^ j \<le> n div 2" by simp
    then have b: "2 ^ k \<le> 2 * (n div 2)" by (simp add: k)
    from Suc.IH [OF a b] n show ?thesis
      by (subst bit_length.simps) simp
  qed
qed

lemma py_round_eqI:
  assumes "of_int k - 1 / 2 < x" and "x < of_int k + 1 / 2"
  shows "py_round x = k"
proof -
  have "\<lfloor>x\<rfloor> = k \<or> \<lfloor>x\<rfloor> = k - 1" using assms by linarith
  then show ?thesis
  proof
    assume f: "\<lfloor>x\<rfloor> = k"
    then have "x - of_int k < 1 / 2" using assms by simp
    then show ?thesis by (simp add: py_round_def f Let_def)
  next
    assume f: "\<lfloor>x\<rfloor> = k - 1"
    then have "1 / 2 < x - of_int (k - 1)" using assms by simp
    then show ?thesis by (simp add: py_round_def f Let_def)
  qed
qed

lemma spc_pct_double_1_2: "spc_pct double_1_2 = 120000"
proof -
  have f: "\<lfloor>double_1_2 * 100000\<rfloor> = 119999" by (simp add: double_1_2_def floor_eq_iff)
  have b: "bit_length 119999 = 17" by (rule bit_length_eqI) simp_all
  have i: "ilog2 (double_1_2 * 100000) = 16"
    unfolding ilog2_def f using b by (simp add: double_1_2_def)
  have r: "py_round (double_1_2 * 100000 / pow2 (- 36)) = 8246337208320000"
    by (rule py_round_eqI) (simp_all add: double_1_2_def pow2_def)
  have t: "to_double (double_1_2 * 100000) = 120000"
    unfolding to_double_def i using r by (simp add: double_1_2_def pow2_def)
  show ?thesis unfolding spc_pct_def t by (rule py_round_eqI) simp_all
qed


subsection \<open>The example presentation\<close>

lemma deck_text:
  "text_paragraphs deck = {Paragraph 10 [0, 1], Paragraph 20 [2]}"
  "text_runs deck = {0, 1, 2}"
  by (auto simp: text_runs_def text_paragraphs_def deck_def)

lemma braille_font_name: "\<not> has_surrogate (py ''Braille'')" "xml_compatible (py ''Braille'')"
  by (simp_all add: has_surrogate_def xml_compatible_def py_def)

subsection \<open>The claims\<close>

text \<open>
  C8. The character spacing is not set: after a font pass that returns, every run has the
  character spacing it had before, whatever the configured spacing is, because the
  assignment of lines 87 and 98 does not reach the document. The rest of the claim
  holds of a pass that returns: every run of every text frame and of every table cell,
  inside groups at any depth too, is black and not italic, and its size is the configured
  one when the answer was yes and the size it had when the answer was no. After the
  answer yes a size below 1 point or above 4000 points is refused by the library, and the
  pass raises at the first run.
\<close>

theorem modify_presentation_font_character_spacing:
  "(\<forall>st'. modify_presentation_font stdin prs font_name font_size spacing_size st = Inr st' \<longrightarrow>
      (\<forall>run. f_space (fonts st' run) = f_space (fonts st run))
      \<and> (\<forall>run \<in> text_runs prs.
            f_color_rgb (fonts st' run) = Some (0, 0, 0)
            \<and> f_italic (fonts st' run) = Some False
            \<and> f_size (fonts st' run)
                = (if ask stdin = Inr (py ''yes'') then Some (Pt font_size)
                   else f_size (fonts st run))))
   \<and> (ask stdin = Inr (py ''yes'') \<and> (font_size < 1 \<or> 4000 < font_size)
        \<and> text_runs prs \<noteq> {} \<longrightarrow>
        (\<exists>e. modify_presentation_font stdin prs font_name font_size spacing_size st = Inl e))"
proof (intro conjI allI impI ballI)
  fix st' run
  assume r: "modify_presentation_font stdin prs font_name font_size spacing_size st = Inr st'"
  show "f_space (fonts st' run) = f_space (fonts st run)"
    by (rule modify_presentation_font_effect(3) [OF r])
  assume t: "run \<in> text_runs prs"
  from modify_presentation_font_effect(4) [OF r t]
  show "f_color_rgb (fonts st' run) = Some (0, 0, 0)" and "f_italic (fonts st' run) = Some False"
    by simp_all
  show "f_size (fonts st' run)
          = (if ask stdin = Inr (py ''yes'') then Some (Pt font_size) else f_size (fonts st run))"
    by (rule modify_presentation_font_effect(5) [OF r t])
next
  assume "ask stdin = Inr (py ''yes'') \<and> (font_size < 1 \<or> 4000 < font_size)
            \<and> text_runs prs \<noteq> {}"
  then show "\<exists>e. modify_presentation_font stdin prs font_name font_size spacing_size st = Inl e"
    by (intro modify_presentation_font_raises) simp_all
qed

theorem modify_presentation_font_character_spacing_witness:
  "(\<exists>st'. modify_presentation_font [py ''maybe'', py ''yes''] deck (py ''Braille'') 14 50
             plain_store = Inr st'
          \<and> f_space (fonts plain_store 2) = None
          \<and> f_space (fonts st' 2) = None
          \<and> f_space (fonts st' 2) \<noteq> Some (Pt 50)
          \<and> f_color_rgb (fonts st' 2) = Some (0, 0, 0)
          \<and> f_italic (fonts st' 2) = Some False
          \<and> f_size (fonts st' 2) = Some (Pt 14))
   \<and> (\<exists>st'. modify_presentation_font [py ''no''] deck (py ''Braille'') 14 50
               plain_store = Inr st'
          \<and> f_space (fonts st' 2) = None
          \<and> f_size (fonts st' 2) = Some (Pt 24))
   \<and> (\<exists>e. modify_presentation_font [py ''yes''] deck (py ''Braille'') 0 50 plain_store = Inl e)"
proof -
  have yes: "ask [py ''maybe'', py ''yes''] = Inr (py ''yes'')" by (simp add: py_def)
  have yes': "ask [py ''yes''] = Inr (py ''yes'')" by (simp add: py_def)
  have no: "ask [py ''no''] = Inr (py ''no'')" by (simp add: py_def)
  have ne: "py ''no'' \<noteq> py ''yes''" by (simp add: py_def)
  have r: "2 \<in> text_runs deck" by (simp add: deck_text)
  have t: "text_runs deck \<noteq> {}" by (simp add: deck_text)
  have old: "f_space (fonts plain_store 2) = None" "f_size (fonts plain_store 2) = Some (Pt 24)"
    by (simp_all add: plain_store_def red_italic_def)
  from modify_presentation_font_returns
         [OF yes braille_font_name, where font_size = 14 and spacing_size = 50 and prs = deck
            and st = plain_store]
  obtain s1 where s1: "modify_presentation_font [py ''maybe'', py ''yes''] deck (py ''Braille'')
                         14 50 plain_store = Inr s1"
    by auto
  from modify_presentation_font_returns
         [OF no braille_font_name, where font_size = 14 and spacing_size = 50 and prs = deck
            and st = plain_store] ne
  obtain s2 where s2: "modify_presentation_font [py ''no''] deck (py ''Braille'')
                         14 50 plain_store = Inr s2"
    by auto
  note c1 = modify_presentation_font_character_spacing
    [of "[py ''maybe'', py ''yes'']" deck "py ''Braille''" 14 50 plain_store]
  note c2 = modify_presentation_font_character_spacing
    [of "[py ''no'']" deck "py ''Braille''" 14 50 plain_store]
  note c3 = modify_presentation_font_character_spacing
    [of "[py ''yes'']" deck "py ''Braille''" 0 50 plain_store]
  from c1 s1 r yes old have a:
    "f_space (fonts s1 2) = None \<and> f_color_rgb (fonts s1 2) = Some (0, 0, 0)
     \<and> f_italic (fonts s1 2) = Some False \<and> f_size (fonts s1 2) = Some (Pt 14)"
    by auto
  from c2 s2 r no ne old have b: "f_space (fonts s2 2) = None \<and> f_size (fonts s2 2) = Some (Pt 24)"
    by auto
  from c3 yes' t
  have c: "\<exists>e. modify_presentation_font [py ''yes''] deck (py ''Braille'') 0 50 plain_store = Inl e"
    by simp
  from s1 s2 a b c old show ?thesis by simp
qed

text \<open>
  C9. Both passes leave every shape that is neither a text frame nor a table nor a group
  as it was, and both walk into groups. Of a font pass that returns: the font of no run
  outside the text frames and table cells has changed, no line spacing has changed, so a
  shape of another kind, at any depth, keeps every object that it shares with no text
  shape; and every run of the text frames and table cells, those inside groups and
  inside groups of groups among them, has the configured typeface, is not italic and is
  black. The font pass returns when the question is answered, the typeface is a string
  that the document can hold and, after the answer yes, the size lies between 1 and
  4000 points. Of a line-spacing pass that returns: the line spacing of no paragraph
  outside the text frames and table cells has changed, no font has changed, a shape of
  another kind keeps its objects; and every paragraph of the text frames and table
  cells, inside groups at any depth too, has the line spacing that the library stores
  for the value, the number of 1/100000 of a line nearest to it. The line-spacing pass
  returns when the value lies between 0 and 132.
\<close>

theorem style_passes_traversal:
  "(\<forall>st'. modify_presentation_font stdin prs font_name font_size spacing_size st = Inr st' \<longrightarrow>
      (\<forall>a. a \<notin> text_runs prs \<longrightarrow> fonts st' a = fonts st a)
      \<and> line_spacings st' = line_spacings st
      \<and> (\<forall>s \<in> all_shapes prs.
            \<not> has_text_frame s \<and> \<not> has_table s \<and> shape_type s \<noteq> Some 6 \<and> apart prs s \<longrightarrow>
            (\<forall>p \<in> set (shape_objects s). look st' p = look st p))
      \<and> (\<forall>a \<in> text_runs prs.
            f_name (fonts st' a) = Some font_name \<and> f_italic (fonts st' a) = Some False
            \<and> f_color_rgb (fonts st' a) = Some (0, 0, 0)))
   \<and> (\<forall>answer. ask stdin = Inr answer \<and> \<not> has_surrogate font_name \<and> xml_compatible font_name
         \<and> (answer = py ''yes'' \<longrightarrow> 1 \<le> font_size \<and> font_size \<le> 4000) \<longrightarrow>
         (\<exists>st'. modify_presentation_font stdin prs font_name font_size spacing_size st = Inr st'))
   \<and> (\<forall>st'. modify_presentation_spacing prs v st = Inr st' \<longrightarrow>
         (\<forall>b. b \<notin> para_addr ` text_paragraphs prs \<longrightarrow> line_spacings st' b = line_spacings st b)
         \<and> fonts st' = fonts st
         \<and> (\<forall>s \<in> all_shapes prs.
               \<not> has_text_frame s \<and> \<not> has_table s \<and> shape_type s \<noteq> Some 6 \<and> apart prs s \<longrightarrow>
               (\<forall>p \<in> set (shape_objects s). look st' p = look st p))
         \<and> (\<forall>p \<in> text_paragraphs prs.
               line_spacings st' (para_addr p) = Some (SpcPct (spc_pct v))))
   \<and> (0 \<le> v \<and> v \<le> 132 \<longrightarrow> (\<exists>st'. modify_presentation_spacing prs v st = Inr st'))"
proof (intro conjI allI impI ballI)
  fix st' a
  assume r: "modify_presentation_font stdin prs font_name font_size spacing_size st = Inr st'"
  show "line_spacings st' = line_spacings st"
    by (rule modify_presentation_font_effect(2) [OF r])
  show "fonts st' a = fonts st a" if "a \<notin> text_runs prs"
    by (rule modify_presentation_font_effect(1) [OF r that])
  show "f_name (fonts st' a) = Some font_name" "f_italic (fonts st' a) = Some False"
    "f_color_rgb (fonts st' a) = Some (0, 0, 0)" if "a \<in> text_runs prs"
    using modify_presentation_font_effect(4) [OF r that] by simp_all
next
  fix st' s p
  assume r: "modify_presentation_font stdin prs font_name font_size spacing_size st = Inr st'"
    and "\<not> has_text_frame s \<and> \<not> has_table s \<and> shape_type s \<noteq> Some 6 \<and> apart prs s"
    and p: "p \<in> set (shape_objects s)"
  then have "apart prs s" by simp
  then show "look st' p = look st p" by (rule modify_presentation_font_look [OF r _ p])
next
  fix answer
  assume "ask stdin = Inr answer \<and> \<not> has_surrogate font_name \<and> xml_compatible font_name
            \<and> (answer = py ''yes'' \<longrightarrow> 1 \<le> font_size \<and> font_size \<le> 4000)"
  then show "\<exists>st'. modify_presentation_font stdin prs font_name font_size spacing_size st = Inr st'"
    by (intro modify_presentation_font_returns [of stdin answer]) simp_all
next
  fix st' b
  assume r: "modify_presentation_spacing prs v st = Inr st'"
  show "fonts st' = fonts st" by (rule modify_presentation_spacing_effect(2) [OF r])
  show "line_spacings st' b = line_spacings st b" if "b \<notin> para_addr ` text_paragraphs prs"
    by (rule modify_presentation_spacing_effect(1) [OF r that])
next
  fix st' s p
  assume r: "modify_presentation_spacing prs v st = Inr st'"
    and "\<not> has_text_frame s \<and> \<not> has_table s \<and> shape_type s \<noteq> Some 6 \<and> apart prs s"
    and p: "p \<in> set (shape_objects s)"
  then have "apart prs s" by simp
  then show "look st' p = look st p" by (rule modify_presentation_spacing_look [OF r _ p])
next
  fix st' p
  assume r: "modify_presentation_spacing prs v st = Inr st'" and p: "p \<in> text_paragraphs prs"
  show "line_spacings st' (para_addr p) = Some (SpcPct (spc_pct v))"
    by (rule modify_presentation_spacing_effect(3) [OF r p])
next
  assume "0 \<le> v \<and> v \<le> 132"
  then show "\<exists>st'. modify_presentation_spacing prs v st = Inr st'"
    by (intro modify_presentation_spacing_returns) simp_all
qed

theorem style_passes_traversal_witness:
  "OtherShape PICTURE [Paragraph 30 [3]] \<in> all_shapes deck
   \<and> apart deck (OtherShape PICTURE [Paragraph 30 [3]])
   \<and> (\<exists>st'. modify_presentation_font [py ''yes''] deck (py ''Braille'') 14 50 plain_store
                 = Inr st'
           \<and> look st' (Paragraph 30 [3]) = look plain_store (Paragraph 30 [3])
           \<and> fonts st' 3 = red_italic
           \<and> line_spacings st' = line_spacings plain_store
           \<and> f_name (fonts st' 0) = Some (py ''Braille'')
           \<and> f_name (fonts st' 2) = Some (py ''Braille'')
           \<and> f_italic (fonts st' 2) = Some False
           \<and> f_color_rgb (fonts st' 2) = Some (0, 0, 0))
   \<and> (\<exists>st'. modify_presentation_spacing deck double_1_2 plain_store = Inr st'
           \<and> look st' (Paragraph 30 [3]) = look plain_store (Paragraph 30 [3])
           \<and> fonts st' = fonts plain_store
           \<and> line_spacings st' 30 = None
           \<and> line_spacings st' 10 = Some (SpcPct 120000)
           \<and> line_spacings st' 20 = Some (SpcPct 120000))"
proof -
  let ?s = "OtherShape PICTURE [Paragraph 30 [3]]"
  have m: "?s \<in> all_shapes deck" by (simp add: all_shapes_def deck_def)
  have k: "\<not> has_text_frame ?s \<and> \<not> has_table ?s \<and> shape_type ?s \<noteq> Some 6" by simp
  have ap: "apart deck ?s" by (simp add: apart_def deck_text)
  have o: "Paragraph 30 [3] \<in> set (shape_objects ?s)" by simp
  have t10: "Paragraph 10 [0, 1] \<in> text_paragraphs deck" by (simp add: deck_text)
  have t20: "Paragraph 20 [2] \<in> text_paragraphs deck" by (simp add: deck_text)
  have r0: "0 \<in> text_runs deck" and r2: "2 \<in> text_runs deck" by (simp_all add: deck_text)
  have n3: "3 \<notin> text_runs deck" by (simp add: deck_text)
  have n30: "30 \<notin> para_addr ` text_paragraphs deck" by (simp add: deck_text)
  have yes: "ask [py ''yes''] = Inr (py ''yes'')" by (simp add: py_def)
  have sz: "(1 :: int) \<le> 14 \<and> (14 :: int) \<le> 4000" by simp
  have v: "0 \<le> double_1_2 \<and> double_1_2 \<le> 132" by (simp add: double_1_2_def)
  note claim = style_passes_traversal
    [of "[py ''yes'']" deck "py ''Braille''" 14 50 plain_store double_1_2]
  from claim yes braille_font_name sz
  obtain s1 where s1: "modify_presentation_font [py ''yes''] deck (py ''Braille'') 14 50
                         plain_store = Inr s1"
    by blast
  from claim v
  obtain s2 where s2: "modify_presentation_spacing deck double_1_2 plain_store = Inr s2"
    by blast
  from claim s1 m k ap o have a: "look s1 (Paragraph 30 [3]) = look plain_store (Paragraph 30 [3])"
    by blast
  from claim s1 n3 have b: "fonts s1 3 = fonts plain_store 3" by blast
  from claim s1 have c: "line_spacings s1 = line_spacings plain_store" by blast
  from claim s1 r0 have d0: "f_name (fonts s1 0) = Some (py ''Braille'')" by blast
  from claim s1 r2 have d2: "f_name (fonts s1 2) = Some (py ''Braille'')
      \<and> f_italic (fonts s1 2) = Some False \<and> f_color_rgb (fonts s1 2) = Some (0, 0, 0)"
    by blast
  from claim s2 m k ap o have e: "look s2 (Paragraph 30 [3]) = look plain_store (Paragraph 30 [3])"
    by blast
  from claim s2 have f: "fonts s2 = fonts plain_store" by blast
  from claim s2 n30 have g: "line_spacings s2 30 = line_spacings plain_store 30" by blast
  from claim s2 t10
  have h10: "line_spacings s2 (para_addr (Paragraph 10 [0, 1])) = Some (SpcPct (spc_pct double_1_2))"
    by blast
  from claim s2 t20
  have h20: "line_spacings s2 (para_addr (Paragraph 20 [2])) = Some (SpcPct (spc_pct double_1_2))"
    by blast
  from m ap s1 s2 a b c d0 d2 e f g h10 h20 show ?thesis
    by (simp add: plain_store_def spc_pct_double_1_2)
qed

end
